theory Spec2Isabelle
  imports Complex_Main "HOL-Library.Sublist"
begin

section \<open>JavaScript strings and arrays\<close>

text \<open>
  A text is a list of code units. The development covers texts whose code units lie in
  0..255 (the Latin-1 range), one \<^typ>\<open>char\<close> per code unit; on that range the
  character classes and the case mapping below are the ones of ECMAScript.
\<close>

definition code :: "char \<Rightarrow> nat" where
  "code c = of_char c"

text \<open>The class \<^verbatim>\<open>\s\<close>: tab, line feed, vertical tab, form feed, carriage return,
  space and no-break space.\<close>

definition isSpace :: "char \<Rightarrow> bool" where
  "isSpace c = (code c \<in> {9, 10, 11, 12, 13, 32, 160})"

definition isUpper :: "char \<Rightarrow> bool" where
  "isUpper c = (65 \<le> code c \<and> code c \<le> 90)"

definition isLower :: "char \<Rightarrow> bool" where
  "isLower c = (97 \<le> code c \<and> code c \<le> 122)"

definition isDigit :: "char \<Rightarrow> bool" where
  "isDigit c = (48 \<le> code c \<and> code c \<le> 57)"

definition isAlpha :: "char \<Rightarrow> bool" where
  "isAlpha c = (isUpper c \<or> isLower c)"

text \<open>The class \<^verbatim>\<open>\w\<close>, which also decides \<^verbatim>\<open>\b\<close>.\<close>

definition isWordChar :: "char \<Rightarrow> bool" where
  "isWordChar c = (isAlpha c \<or> isDigit c \<or> c = CHR ''_'')"

text \<open>\<^verbatim>\<open>String.prototype.toLowerCase\<close> on one code unit: A-Z, and the Latin-1 capitals
  0xC0-0xDE without the multiplication sign 0xD7, move up by 32.\<close>

definition toLowerChar :: "char \<Rightarrow> char" where
  "toLowerChar c =
     (if isUpper c \<or> (192 \<le> code c \<and> code c \<le> 222 \<and> code c \<noteq> 215)
      then char_of (code c + 32) else c)"

definition toLowerCase :: "string \<Rightarrow> string" where
  "toLowerCase s = map toLowerChar s"

text \<open>\<^verbatim>\<open>slice(start, fin)\<close> of arrays and strings: a negative index counts from the
  end, both indices are clamped to the length, and an empty range gives the empty
  sequence.\<close>

definition jsSlice :: "'a list \<Rightarrow> int \<Rightarrow> int \<Rightarrow> 'a list" where
  "jsSlice xs start fin =
     (let len = int (length xs);
          k = (if start < 0 then max (len + start) 0 else min start len);
          final = (if fin < 0 then max (len + fin) 0 else min fin len)
      in take (nat (final - k)) (drop (nat k) xs))"

text \<open>\<^verbatim>\<open>split(/\s+/)\<close>: the pieces between maximal runs of white space. A run at the
  start or at the end leaves an empty piece there, and the empty text gives one empty
  piece. The second argument holds the piece being read, reversed; the third tells
  whether the previous code unit was white space.\<close>

fun splitAux :: "string \<Rightarrow> string \<Rightarrow> bool \<Rightarrow> string list" where
  "splitAux [] cur inSep = [rev cur]"
| "splitAux (c # cs) cur inSep =
     (if isSpace c
      then (if inSep then splitAux cs cur True else rev cur # splitAux cs [] True)
      else splitAux cs (c # cur) False)"

definition splitWs :: "string \<Rightarrow> string list" where
  "splitWs s = splitAux s [] False"

text \<open>\<^verbatim>\<open>join(' ')\<close>.\<close>

fun join :: "string list \<Rightarrow> string" where
  "join [] = []"
| "join [w] = w"
| "join (w # ws) = w @ '' '' @ join ws"

section \<open>Regular expressions\<close>

text \<open>
  A pattern is read as a backtracking matcher, the way the engine runs it: given the whole
  text and a start index, it lists the end indices of its matches in the order in which
  backtracking tries them. The match of a pattern at an index is the first one in the
  list. The text is passed whole because \<^verbatim>\<open>\b\<close>, \<^verbatim>\<open>^\<close> and \<^verbatim>\<open>$\<close> look at the
  neighbouring code units.
\<close>

type_synonym matcher = "string \<Rightarrow> nat \<Rightarrow> nat list"

definition mEps :: matcher where
  "mEps s i = [i]"

definition mFail :: matcher where
  "mFail s i = []"

text \<open>One code unit of a class.\<close>

definition mChar :: "(char \<Rightarrow> bool) \<Rightarrow> matcher" where
  "mChar p s i = (if i < length s \<and> p (s ! i) then [Suc i] else [])"

definition mSeq :: "matcher \<Rightarrow> matcher \<Rightarrow> matcher" where
  "mSeq a b s i = concat (map (b s) (a s i))"

definition mAlt :: "matcher \<Rightarrow> matcher \<Rightarrow> matcher" where
  "mAlt a b s i = a s i @ b s i"

definition mSeqs :: "matcher list \<Rightarrow> matcher" where
  "mSeqs ms = foldr mSeq ms mEps"

definition mAlts :: "matcher list \<Rightarrow> matcher" where
  "mAlts ms = foldr mAlt ms mFail"

text \<open>\<^verbatim>\<open>a?\<close>, greedy.\<close>

definition mOpt :: "matcher \<Rightarrow> matcher" where
  "mOpt a = mAlt a mEps"

text \<open>\<^verbatim>\<open>a*\<close>, greedy: one more round first, then none. A round that matches the empty
  string is dropped, as the engine does; every other round moves forward, so the rounds
  left are bounded by the code units left.\<close>

fun starRounds :: "nat \<Rightarrow> matcher \<Rightarrow> matcher" where
  "starRounds 0 a s i = [i]"
| "starRounds (Suc k) a s i =
     concat (map (\<lambda>j. if i < j then starRounds k a s j else []) (a s i)) @ [i]"

definition mStar :: "matcher \<Rightarrow> matcher" where
  "mStar a s i = starRounds (length s - i) a s i"

definition mPlus :: "matcher \<Rightarrow> matcher" where
  "mPlus a = mSeq a (mStar a)"

text \<open>\<^verbatim>\<open>a*?\<close> and \<^verbatim>\<open>a+?\<close>, lazy: none first, then one more round.\<close>

fun lazyRounds :: "nat \<Rightarrow> matcher \<Rightarrow> matcher" where
  "lazyRounds 0 a s i = [i]"
| "lazyRounds (Suc k) a s i =
     i # concat (map (\<lambda>j. if i < j then lazyRounds k a s j else []) (a s i))"

definition mStarLazy :: "matcher \<Rightarrow> matcher" where
  "mStarLazy a s i = lazyRounds (length s - i) a s i"

definition mPlusLazy :: "matcher \<Rightarrow> matcher" where
  "mPlusLazy a = mSeq a (mStarLazy a)"

text \<open>\<^verbatim>\<open>(?!a)\<close>.\<close>

definition mNot :: "matcher \<Rightarrow> matcher" where
  "mNot a s i = (if a s i = [] then [i] else [])"

text \<open>\<^verbatim>\<open>\b\<close>: exactly one of the code units before and after the index is a word
  character; outside the text there is none.\<close>

definition wordAt :: "string \<Rightarrow> nat \<Rightarrow> bool" where
  "wordAt s i = (i < length s \<and> isWordChar (s ! i))"

definition mWordB :: matcher where
  "mWordB s i = (if (0 < i \<and> wordAt s (i - 1)) \<noteq> wordAt s i then [i] else [])"

text \<open>Line terminators (line feed and carriage return), which \<^verbatim>\<open>.\<close> does not match.\<close>

definition isLineTerminator :: "char \<Rightarrow> bool" where
  "isLineTerminator c = (code c = 10 \<or> code c = 13)"

definition mDot :: matcher where
  "mDot = mChar (\<lambda>c. \<not> isLineTerminator c)"

text \<open>\<^verbatim>\<open>^\<close> and \<^verbatim>\<open>$\<close> without the flag \<^verbatim>\<open>m\<close>, and with it.\<close>

definition mStart :: matcher where
  "mStart s i = (if i = 0 then [i] else [])"

definition mBol :: matcher where
  "mBol s i = (if i = 0 \<or> (i \<le> length s \<and> isLineTerminator (s ! (i - 1))) then [i] else [])"

definition mEol :: matcher where
  "mEol s i = (if i = length s \<or> (i < length s \<and> isLineTerminator (s ! i)) then [i] else [])"

text \<open>The flag \<^verbatim>\<open>i\<close> compares canonical forms, the upper-case code units: a-z, and the
  Latin-1 small letters 0xE0-0xFE without the division sign 0xF7, move down by 32.\<close>

definition canonicalize :: "char \<Rightarrow> char" where
  "canonicalize c =
     (if isLower c \<or> (224 \<le> code c \<and> code c \<le> 254 \<and> code c \<noteq> 247)
      then char_of (code c - 32) else c)"

text \<open>A literal, with the flag \<^verbatim>\<open>i\<close>.\<close>

definition mLit :: "string \<Rightarrow> matcher" where
  "mLit w = mSeqs (map (\<lambda>l. mChar (\<lambda>c. canonicalize c = canonicalize l)) w)"

text \<open>\<^verbatim>\<open>regex.test(text)\<close> for a pattern without the flag \<^verbatim>\<open>g\<close>: a match starts at some
  index.\<close>

definition rxTest :: "matcher \<Rightarrow> string \<Rightarrow> bool" where
  "rxTest m s = list_ex (\<lambda>i. m s i \<noteq> []) [0..<Suc (length s)]"

text \<open>The matches a global pattern finds from index \<open>i\<close> on, as pairs of start and end:
  the leftmost start with a match, its first end, and on from that end (one further when
  the match is empty).\<close>

function matchesFrom :: "matcher \<Rightarrow> string \<Rightarrow> nat \<Rightarrow> (nat \<times> nat) list" where
  "matchesFrom m s i =
     (if length s < i then []
      else (case m s i of
              [] \<Rightarrow> matchesFrom m s (Suc i)
            | e # _ \<Rightarrow> (i, e) # matchesFrom m s (if i < e then e else Suc i)))"
  by pat_completeness auto
termination
  by (relation "measure (\<lambda>(m, s, i). Suc (length s) - i)") auto

declare matchesFrom.simps [simp del]

text \<open>\<^verbatim>\<open>text.replace(regex, callback)\<close> with a global pattern. The callback gets the
  matched substring and its offset; here it also threads a state \<open>'st\<close>, for what the
  source's callbacks do besides returning the replacement. \<open>pos\<close> is the index up to
  which the text has been copied.\<close>

fun replaceLoop ::
  "(string \<Rightarrow> nat \<Rightarrow> 'st \<Rightarrow> string \<times> 'st) \<Rightarrow> string \<Rightarrow> nat \<Rightarrow> (nat \<times> nat) list \<Rightarrow> 'st \<Rightarrow> string \<times> 'st" where
  "replaceLoop cb s pos [] st = (drop pos s, st)"
| "replaceLoop cb s pos ((i, e) # spans) st =
     (let (r, st') = cb (jsSlice s (int i) (int e)) i st;
          (rest, st'') = replaceLoop cb s e spans st'
      in (take (i - pos) (drop pos s) @ r @ rest, st''))"

definition replaceAll ::
  "matcher \<Rightarrow> (string \<Rightarrow> nat \<Rightarrow> 'st \<Rightarrow> string \<times> 'st) \<Rightarrow> string \<Rightarrow> 'st \<Rightarrow> string \<times> 'st" where
  "replaceAll m cb s st = replaceLoop cb s 0 (matchesFrom m s 0) st"

text \<open>\<^verbatim>\<open>text.includes(part)\<close>.\<close>

fun startsWith :: "string \<Rightarrow> string \<Rightarrow> bool" where
  "startsWith s [] = True"
| "startsWith [] (p # ps) = False"
| "startsWith (c # cs) (p # ps) = (c = p \<and> startsWith cs ps)"

fun includesStr :: "string \<Rightarrow> string \<Rightarrow> bool" where
  "includesStr [] part = (part = [])"
| "includesStr (c # cs) part = (startsWith (c # cs) part \<or> includesStr cs part)"

section \<open>N-gram extraction (WordCloudTab)\<close>

text \<open>
  \<^verbatim>\<open>removeStopwords\<close> comes from the package \<^verbatim>\<open>stopword\<close>: it keeps the tokens whose
  lower-case form is not in the stop list. The list is the package's; it is a parameter
  here.
\<close>

definition removeStopwords :: "string list \<Rightarrow> string list \<Rightarrow> string list" where
  "removeStopwords stop tokens = filter (\<lambda>w. toLowerCase w \<notin> set stop) tokens"

text \<open>The values a property of the counting object can hold: a number, a string, or the
  function \<^verbatim>\<open>Object\<close> that every object literal inherits under the key
  \<^verbatim>\<open>constructor\<close>.\<close>

datatype jsvalue = Num nat | Str string | ObjectCtor

record ngram =
  ngram_text :: string
  ngram_value :: jsvalue

datatype CloudType = single | multi | both

text \<open>The state of the component. \<^verbatim>\<open>generateNgrams\<close> is a closure over it.\<close>

record cloud_state =
  inputText :: string
  words :: "ngram list"
  selectedWords :: "string set"
  cloudType :: CloudType
  useTrigrams :: bool
  excludedWords :: "string set"

text \<open>The text an engine prints for the function \<^verbatim>\<open>Object\<close> (here V8's).\<close>

definition objectCtorText :: string where
  "objectCtorText = ''function Object() { [native code] }''"

text \<open>\<^verbatim>\<open>ngrams[phrase]\<close> on \<^verbatim>\<open>const ngrams = {}\<close>: an own property first, then the
  prototype. A phrase is made of the letters a-z and single spaces, so the one inherited
  property it can name is \<^verbatim>\<open>constructor\<close>. \<open>None\<close> is \<^verbatim>\<open>undefined\<close>.\<close>

definition getProp :: "(string \<times> jsvalue) list \<Rightarrow> string \<Rightarrow> jsvalue option" where
  "getProp obj k =
     (case map_of obj k of
        Some v \<Rightarrow> Some v
      | None \<Rightarrow> if k = ''constructor'' then Some ObjectCtor else None)"

text \<open>\<^verbatim>\<open>(v || 0) + 1\<close>: \<^verbatim>\<open>undefined\<close>, 0 and the empty string are falsy and give 1; a
  number is incremented; a string, or a function turned into its text, has the digit
  appended.\<close>

fun orZeroPlusOne :: "jsvalue option \<Rightarrow> jsvalue" where
  "orZeroPlusOne None = Num 1"
| "orZeroPlusOne (Some (Num c)) = Num (c + 1)"
| "orZeroPlusOne (Some (Str s)) = (if s = [] then Num 1 else Str (s @ ''1''))"
| "orZeroPlusOne (Some ObjectCtor) = Str (objectCtorText @ ''1'')"

text \<open>An assignment \<^verbatim>\<open>obj[k] = v\<close>: an existing own property keeps its place in the
  enumeration order, a new one goes last.\<close>

fun setProp :: "string \<Rightarrow> jsvalue \<Rightarrow> (string \<times> jsvalue) list \<Rightarrow> (string \<times> jsvalue) list" where
  "setProp k v [] = [(k, v)]"
| "setProp k v ((k', v') # obj) =
     (if k' = k then (k, v) # obj else (k', v') # setProp k v obj)"

definition cleanWords :: "string list \<Rightarrow> string \<Rightarrow> string list" where
  "cleanWords stop txt =
     filter (\<lambda>w. length w > 2)
       (removeStopwords stop
          (splitWs (filter (\<lambda>c. isAlpha c \<or> isSpace c) (toLowerCase txt))))"

text \<open>The phrases the loop builds, for \<open>i\<close> from 0 to \<open>length - n\<close>.\<close>

definition phrases :: "string list \<Rightarrow> int \<Rightarrow> string list" where
  "phrases cw n = map (\<lambda>i. join (jsSlice cw i (i + n))) [0..int (length cw) - n]"

definition countPhrase :: "string set \<Rightarrow> string \<Rightarrow> (string \<times> jsvalue) list \<Rightarrow> (string \<times> jsvalue) list" where
  "countPhrase excluded phrase ngrams =
     (if phrase \<notin> excluded
      then setProp phrase (orZeroPlusOne (getProp ngrams phrase)) ngrams
      else ngrams)"

text \<open>The comparator \<^verbatim>\<open>(a, b) => b.value - a.value\<close>; \<open>None\<close> is NaN, the difference
  when a value is not a number.\<close>

definition byValueDesc :: "ngram \<Rightarrow> ngram \<Rightarrow> int option" where
  "byValueDesc a b =
     (case (ngram_value a, ngram_value b) of
        (Num x, Num y) \<Rightarrow> Some (int y - int x)
      | _ \<Rightarrow> None)"

text \<open>\<^verbatim>\<open>Array.prototype.sort\<close> is stable: \<open>a\<close> stays before a later \<open>b\<close> unless the
  comparator is positive, and NaN counts as 0. When a value is not a number the
  comparator is not an ordering and the standard leaves the order to the engine; the
  statements about order below are about numeric values.\<close>

fun insertBy :: "('a \<Rightarrow> 'a \<Rightarrow> int option) \<Rightarrow> 'a \<Rightarrow> 'a list \<Rightarrow> 'a list" where
  "insertBy cmp a [] = [a]"
| "insertBy cmp a (b # bs) =
     (case cmp a b of
        Some d \<Rightarrow> if d > 0 then b # insertBy cmp a bs else a # b # bs
      | None \<Rightarrow> a # b # bs)"

definition sortBy :: "('a \<Rightarrow> 'a \<Rightarrow> int option) \<Rightarrow> 'a list \<Rightarrow> 'a list" where
  "sortBy cmp xs = foldr (insertBy cmp) xs []"

definition generateNgrams :: "string list \<Rightarrow> cloud_state \<Rightarrow> string \<Rightarrow> int \<Rightarrow> int \<Rightarrow> ngram list" where
  "generateNgrams stop st txt n limit =
     (let ngrams = fold (countPhrase (excludedWords st)) (phrases (cleanWords stop txt) n) []
      in jsSlice
           (sortBy byValueDesc
              (map (\<lambda>(t, v). \<lparr>ngram_text = t, ngram_value = v\<rparr>) ngrams))
           0 limit)"

text \<open>The entries of the counting object, in enumeration order, before they are sorted.\<close>

definition ngramEntries :: "string list \<Rightarrow> cloud_state \<Rightarrow> string \<Rightarrow> int \<Rightarrow> ngram list" where
  "ngramEntries stop st txt n =
     map (\<lambda>(t, v). \<lparr>ngram_text = t, ngram_value = v\<rparr>)
       (fold (countPhrase (excludedWords st)) (phrases (cleanWords stop txt) n) [])"

text \<open>Reading a value as a count (0 when it is not a number), the sum of the counts of
  a counting object, and the objects whose values are all counts of at least 1.\<close>

fun numOf :: "jsvalue \<Rightarrow> nat" where
  "numOf (Num c) = c"
| "numOf (Str s) = 0"
| "numOf ObjectCtor = 0"

fun isNum :: "jsvalue \<Rightarrow> bool" where
  "isNum (Num c) = True"
| "isNum (Str s) = False"
| "isNum ObjectCtor = False"

definition totalCount :: "(string \<times> jsvalue) list \<Rightarrow> nat" where
  "totalCount obj = sum_list (map (\<lambda>(k, v). numOf v) obj)"

definition numeric :: "(string \<times> jsvalue) list \<Rightarrow> bool" where
  "numeric obj = (\<forall>(k, v) \<in> set obj. \<exists>c. 1 \<le> c \<and> v = Num c)"

definition descending :: "ngram list \<Rightarrow> bool" where
  "descending ws = sorted_wrt (\<lambda>a b. numOf (ngram_value b) \<le> numOf (ngram_value a)) ws"

text \<open>Three states of the component and a short stop list, used to run the extractor.\<close>

definition demoStop :: "string list" where
  "demoStop = [''the'', ''and'', ''for'', ''with'']"

definition demoCloud :: cloud_state where
  "demoCloud = \<lparr>inputText = [], words = [], selectedWords = {}, cloudType = single,
                 useTrigrams = False, excludedWords = {}\<rparr>"

definition demoCloudExcl :: cloud_state where
  "demoCloudExcl = \<lparr>inputText = ''old text'', words = [], selectedWords = {''fox''},
                     cloudType = both, useTrigrams = True, excludedWords = {''quick''}\<rparr>"

definition demoCloud2 :: cloud_state where
  "demoCloud2 = \<lparr>inputText = ''something typed before'', words = [], selectedWords = {''dog''},
                  cloudType = multi, useTrigrams = True, excludedWords = {}\<rparr>"
section \<open>Scoring (ATSChecker)\<close>

text \<open>
  The scores are JavaScript numbers. They are modelled exactly: a rational, positive
  infinity, or NaN; the rounding of floating point is left out. All operands of the
  scoring engine are non-negative, and the operations below are the IEEE ones on
  non-negative operands: \<open>0 / 0\<close> is NaN, \<open>a / 0\<close> is infinity for \<open>a > 0\<close>, and NaN
  spreads through every operation.
\<close>

datatype jsnum = Number rat | Infinity | NaN

fun jsDivide :: "jsnum \<Rightarrow> jsnum \<Rightarrow> jsnum" where
  "jsDivide (Number a) (Number b) =
     (if b = 0 then (if a = 0 then NaN else Infinity) else Number (a / b))"
| "jsDivide (Number a) Infinity = Number 0"
| "jsDivide Infinity (Number b) = Infinity"
| "jsDivide Infinity Infinity = NaN"
| "jsDivide NaN y = NaN"
| "jsDivide x NaN = NaN"

fun jsTimes :: "jsnum \<Rightarrow> jsnum \<Rightarrow> jsnum" where
  "jsTimes (Number a) (Number b) = Number (a * b)"
| "jsTimes (Number a) Infinity = (if a = 0 then NaN else Infinity)"
| "jsTimes Infinity (Number b) = (if b = 0 then NaN else Infinity)"
| "jsTimes Infinity Infinity = Infinity"
| "jsTimes NaN y = NaN"
| "jsTimes x NaN = NaN"

fun jsPlus :: "jsnum \<Rightarrow> jsnum \<Rightarrow> jsnum" where
  "jsPlus (Number a) (Number b) = Number (a + b)"
| "jsPlus (Number a) Infinity = Infinity"
| "jsPlus Infinity (Number b) = Infinity"
| "jsPlus Infinity Infinity = Infinity"
| "jsPlus NaN y = NaN"
| "jsPlus x NaN = NaN"

text \<open>The length of an array, as a number.\<close>

definition lengthOf :: "'a list \<Rightarrow> jsnum" where
  "lengthOf xs = Number (of_nat (length xs))"

text \<open>The interfaces of the component. The fields \<^verbatim>\<open>section\<close>, \<^verbatim>\<open>name\<close>, \<^verbatim>\<open>found\<close>,
  \<^verbatim>\<open>word\<close> and \<^verbatim>\<open>count\<close> carry the name of their interface in front; the state
  variable \<^verbatim>\<open>certifications\<close> is \<open>certificationChecks\<close>, the score of that name keeps
  it.\<close>

record ReadabilityCheck =
  check_section :: string
  check_requirement :: string
  check_met :: bool
  check_details :: string

record ATSScore =
  overall :: jsnum
  keywordMatch :: jsnum
  formatting :: jsnum
  readability :: jsnum
  certifications :: jsnum

record FontCheck =
  font_name :: string
  font_found :: bool

record Certification =
  cert_name :: string
  cert_found :: bool

record KeywordCount =
  kw_word :: string
  kw_count :: nat

record ats_state =
  resumeText :: string
  readabilityChecks :: "ReadabilityCheck list"
  fontChecks :: "FontCheck list"
  certificationChecks :: "Certification list"
  atsScore :: ATSScore
  keywordMatches :: "KeywordCount list"
  missingKeywords :: "string list"

subsection \<open>analyzeReadability\<close>

text \<open>\<^verbatim>\<open>[A-Z][^a-z]+:?$\<close>, shared by the second and the third pattern.\<close>

definition headingLine :: matcher where
  "headingLine =
     mSeqs [mChar isUpper, mPlus (mChar (\<lambda>c. \<not> isLower c)),
            mOpt (mChar (\<lambda>c. c = CHR '':'')), mEol]"

text \<open>\<^verbatim>\<open>[\<bullet>\<cdot>-]\<close>: the bullet U+2022 is outside the code units of the texts covered here,
  which leaves the middle dot 0xB7 and the hyphen.\<close>

definition isBullet :: "char \<Rightarrow> bool" where
  "isBullet c = (code c = 183 \<or> c = CHR ''-'')"

definition readabilitySections :: "(string \<times> string \<times> matcher) list" where
  "readabilitySections =
     [(''Name/Header'', ''18-24 pt'',
         mSeqs [mStart, mPlusLazy mDot, mChar (\<lambda>c. code c = 10)]),
      (''Section Headings'', ''12-14 pt (Bold)'',
         mSeqs [mBol, headingLine]),
      (''Body Text'', ''10-12 pt'',
         mSeqs [mBol, mNot headingLine, mPlus mDot, mEol]),
      (''Bullet Points'', ''10-11 pt'',
         mSeqs [mBol, mChar isBullet, mPlus mDot, mEol])]"

text \<open>Each analysis sets a state variable and returns a score; here it returns both.\<close>

definition analyzeReadability :: "string \<Rightarrow> ReadabilityCheck list \<times> jsnum" where
  "analyzeReadability txt =
     (let checks = map (\<lambda>(name, req, regex).
                     \<lparr>check_section = name, check_requirement = req,
                      check_met = rxTest regex txt,
                      check_details = (if rxTest regex txt then ''Present and properly formatted''
                                       else ''Missing or improperly formatted'')\<rparr>)
                   readabilitySections
      in (checks, jsTimes (jsDivide (lengthOf (filter check_met checks)) (lengthOf checks))
                    (Number 100)))"

subsection \<open>analyzeFonts\<close>

definition fontDeclaration :: "string \<Rightarrow> matcher" where
  "fontDeclaration name = mSeqs [mLit ''font-family:'', mStar (mChar isSpace), mLit name]"

definition allowedFonts :: "(string \<times> matcher) list" where
  "allowedFonts =
     [(''Calibri'', fontDeclaration ''Calibri''),
      (''Arial'', fontDeclaration ''Arial''),
      (''Times New Roman'', fontDeclaration ''Times New Roman''),
      (''Helvetica'', fontDeclaration ''Helvetica'')]"

definition analyzeFonts :: "string \<Rightarrow> FontCheck list \<times> jsnum" where
  "analyzeFonts txt =
     (let checks = map (\<lambda>(name, regex). \<lparr>font_name = name, font_found = rxTest regex txt\<rparr>)
                   allowedFonts
      in (checks, if length (filter font_found checks) > 0 then Number 100 else Number 0))"

subsection \<open>analyzeCertifications\<close>

definition requiredCerts :: "(string \<times> matcher) list" where
  "requiredCerts =
     [(''PMP'', mAlt (mLit ''PMP'') (mLit ''Project Management Professional'')),
      (''AWS'', mAlt (mLit ''AWS'') (mLit ''Amazon Web Services'')),
      (''CISSP'',
         mAlt (mLit ''CISSP'')
           (mLit ''Certified Information Systems Security Professional''))]"

definition analyzeCertifications :: "string \<Rightarrow> Certification list \<times> jsnum" where
  "analyzeCertifications txt =
     (let checks = map (\<lambda>(name, regex). \<lparr>cert_name = name, cert_found = rxTest regex txt\<rparr>)
                   requiredCerts
      in (checks, jsTimes (jsDivide (lengthOf (filter cert_found checks)) (lengthOf checks))
                    (Number 100)))"

subsection \<open>analyzeKeywords\<close>

text \<open>The first argument is the property \<^verbatim>\<open>selectedWords\<close> of the component. The result
  holds the matches, the missing keywords and the score.\<close>

definition analyzeKeywords :: "string list \<Rightarrow> string \<Rightarrow> KeywordCount list \<times> string list \<times> jsnum" where
  "analyzeKeywords selected txt =
     (let textLower = toLowerCase txt;
          ws = splitWs textLower;
          matches = filter (\<lambda>m. kw_count m > 0)
                      (map (\<lambda>word.
                              let wordLower = toLowerCase word;
                                  count = length (filter (\<lambda>w. w = wordLower) ws)
                              in \<lparr>kw_word = word, kw_count = count\<rparr>)
                         selected);
          missing = filter (\<lambda>word. \<not> includesStr textLower (toLowerCase word)) selected
      in (matches, missing,
          jsTimes (jsDivide (lengthOf matches) (lengthOf selected)) (Number 100)))"

text \<open>The number of tokens of the lower-case text that equal the lower-case keyword.\<close>

definition tokenCount :: "string \<Rightarrow> string \<Rightarrow> nat" where
  "tokenCount txt word =
     length (filter (\<lambda>w. w = toLowerCase word) (splitWs (toLowerCase txt)))"

subsection \<open>calculateFormattingScore\<close>

definition calculateFormattingScore :: "string \<Rightarrow> jsnum" where
  "calculateFormattingScore txt =
     (let checks =
            [includesStr txt [CHR 0x0A, CHR 0x0A],
             rxTest (mSeqs [mChar isUpper, mPlus (mChar (\<lambda>c. \<not> isLower c)),
                            mChar (\<lambda>c. c = CHR '':'')]) txt,
             rxTest (mSeqs [mStart, mChar isBullet]) txt,
             length txt > 300,
             \<not> rxTest (mChar (\<lambda>c. \<not> code c \<le> 127)) txt]
      in jsTimes (jsDivide (lengthOf (filter (\<lambda>b. b) checks)) (lengthOf checks)) (Number 100))"

subsection \<open>handleFileUpload\<close>

text \<open>The text is what the document parser extracted from the uploaded file; the parser
  is outside. The font score is computed and then not used.\<close>

definition handleFileUpload :: "string list \<Rightarrow> string \<Rightarrow> ats_state \<Rightarrow> ats_state" where
  "handleFileUpload selected txt st =
     (let (matches, missing, keywordScore) = analyzeKeywords selected txt;
          (readabilityChecks', readabilityScore) = analyzeReadability txt;
          formattingScore = calculateFormattingScore txt;
          (fontChecks', fontScore) = analyzeFonts txt;
          (certifications', certScore) = analyzeCertifications txt
      in st\<lparr>resumeText := txt,
            keywordMatches := matches,
            missingKeywords := missing,
            readabilityChecks := readabilityChecks',
            fontChecks := fontChecks',
            certificationChecks := certifications',
            atsScore := \<lparr>overall = jsDivide
                                    (jsPlus (jsPlus (jsPlus keywordScore readabilityScore)
                                               formattingScore) certScore)
                                    (Number 4),
                         keywordMatch = keywordScore,
                         formatting = formattingScore,
                         readability = readabilityScore,
                         certifications = certScore\<rparr>\<rparr>)"

text \<open>The state of the component before any upload.\<close>

definition initialATS :: ats_state where
  "initialATS =
     \<lparr>resumeText = [], readabilityChecks = [], fontChecks = [], certificationChecks = [],
      atsScore = \<lparr>overall = Number 0, keywordMatch = Number 0, formatting = Number 0,
                   readability = Number 0, certifications = Number 0\<rparr>,
      keywordMatches = [], missingKeywords = []\<rparr>"

section \<open>Rewriting with change tracking (ResumeTab)\<close>

datatype ChangeType = Keyword | Enhancement | Metric

text \<open>The interface \<^verbatim>\<open>Change\<close>; its fields \<^verbatim>\<open>type\<close> and \<^verbatim>\<open>context\<close> are \<open>change_type\<close> and
  \<open>change_context\<close> here.\<close>

record Change =
  original :: string
  optimized :: string
  change_type :: ChangeType
  change_context :: string

text \<open>The state variables of the component that the two passes read and write.\<close>

record resume_state =
  resumeText :: string
  optimizedText :: string
  changes :: "Change list"

definition newline :: string where
  "newline = [CHR 0x0A]"

definition indent :: "nat \<Rightarrow> string" where
  "indent k = replicate k (CHR '' '')"

text \<open>\<^verbatim>\<open>text.slice(Math.max(0, offset - 30), offset + match.length + 30)\<close>, between two
  ellipses.\<close>

definition contextOf :: "string \<Rightarrow> string \<Rightarrow> nat \<Rightarrow> string" where
  "contextOf txt match offset =
     ''...'' @ jsSlice txt (max 0 (int offset - 30)) (int offset + int (length match) + 30)
       @ ''...''"

subsection \<open>processText\<close>




definition wordRegex :: "string \<Rightarrow> matcher" where
  "wordRegex w = mSeqs [mWordB, mLit w, mWordB]"





subsection \<open>handleEnhance\<close>

definition actionVerbReplacements :: "(string \<times> string list) list" where
  "actionVerbReplacements =
     [(''worked'', [''spearheaded'', ''executed'', ''implemented'']),
      (''made'', [''created'', ''developed'', ''established'']),
      (''helped'', [''facilitated'', ''supported'', ''guided'']),
      (''responsible for'', [''led'', ''managed'', ''orchestrated'']),
      (''did'', [''accomplished'', ''achieved'', ''completed'']),
      (''improved'', [''optimized'', ''enhanced'', ''streamlined''])]"

text \<open>\<^verbatim>\<open>strong[Math.floor(Math.random() * strong.length)]\<close>. The outcomes of
  \<^verbatim>\<open>Math.random()\<close> are a parameter: \<open>rnd k\<close> is the outcome of call number \<open>k\<close>, a
  rational here, and the product is exact. An index outside the array reads
  \<^verbatim>\<open>undefined\<close>, which the template prints as that word.\<close>

definition randomIndex :: "rat \<Rightarrow> nat \<Rightarrow> nat" where
  "randomIndex r n = nat \<lfloor>r * of_nat n\<rfloor>"

definition elementAt :: "string list \<Rightarrow> nat \<Rightarrow> string" where
  "elementAt xs i = (if i < length xs then xs ! i else ''undefined'')"

definition markEnhanced :: "string \<Rightarrow> string \<Rightarrow> string" where
  \<open>markEnhanced replacement match =
     ''<mark class="bg-green-100 hover:bg-green-200 cursor-help relative group">'' @ newline
     @ indent 10 @ replacement @ newline
     @ indent 10
     @ ''<span class="hidden group-hover:block absolute z-10 bg-white p-2 rounded shadow-lg text-sm">''
     @ newline
     @ indent 12 @ ''Original: "'' @ match @ ''"<br>'' @ newline
     @ indent 12 @ ''Enhanced for stronger impact'' @ newline
     @ indent 10 @ ''</span>'' @ newline
     @ indent 8 @ ''</mark>''\<close>

text \<open>The callback of a weak verb. Its state is the list of changes and the number of
  random numbers drawn so far.\<close>

definition enhanceCallback ::
  "(nat \<Rightarrow> rat) \<Rightarrow> string \<Rightarrow> string list \<Rightarrow> string \<Rightarrow> nat \<Rightarrow> Change list \<times> nat \<Rightarrow> string \<times> Change list \<times> nat" where
  "enhanceCallback rnd optText strong match offset acc =
     (case acc of (newChanges, k) \<Rightarrow>
        let replacement = elementAt strong (randomIndex (rnd k) (length strong))
        in (markEnhanced replacement match,
            newChanges @ [\<lparr>original = match, optimized = replacement,
                            change_type = Enhancement,
                            change_context = contextOf optText match offset\<rparr>],
            Suc k))"

text \<open>One round of \<^verbatim>\<open>Object.entries(actionVerbReplacements).forEach\<close>.\<close>

definition enhanceVerb ::
  "(nat \<Rightarrow> rat) \<Rightarrow> string \<Rightarrow> string \<times> string list \<Rightarrow> string \<times> Change list \<times> nat \<Rightarrow> string \<times> Change list \<times> nat" where
  "enhanceVerb rnd optText entry acc =
     (case (entry, acc) of ((weak, strong), (enhanced, st)) \<Rightarrow>
        replaceAll (wordRegex weak) (enhanceCallback rnd optText strong) enhanced st)"

text \<open>\<^verbatim>\<open>\d{1,2}\/\d{1,2}\/\d{2,4}\<close>, the dates that the metric pattern refuses to start at.\<close>

definition mDigit :: matcher where
  "mDigit = mChar isDigit"

definition datePattern :: matcher where
  "datePattern =
     mSeqs [mDigit, mOpt mDigit, mChar (\<lambda>c. c = CHR ''/''),
            mDigit, mOpt mDigit, mChar (\<lambda>c. c = CHR ''/''),
            mDigit, mDigit, mOpt (mSeq mDigit (mOpt mDigit))]"

definition metricUnits :: "string list" where
  "metricUnits = [''percent'', ''users'', ''customers'', ''dollars'', ''revenue'', ''growth'',
                  ''increase'', ''decrease'', ''improvement'']"

text \<open>The pattern
  \<^verbatim>\<open>\b(?!\d{1,2}\/\d{1,2}\/\d{2,4})\d+(?:,\d{3})*(?:\.\d+)?(?:\s*%|\s+(?:percent|...))\b\<close>
  with the flags \<^verbatim>\<open>gi\<close>.\<close>

definition metricRegex :: matcher where
  "metricRegex =
     mSeqs [mWordB, mNot datePattern, mPlus mDigit,
            mStar (mSeqs [mChar (\<lambda>c. c = CHR '',''), mDigit, mDigit, mDigit]),
            mOpt (mSeq (mChar (\<lambda>c. c = CHR ''.'')) (mPlus mDigit)),
            mAlt (mSeq (mStar (mChar isSpace)) (mChar (\<lambda>c. c = CHR ''%'')))
                 (mSeq (mPlus (mChar isSpace)) (mAlts (map mLit metricUnits))),
            mWordB]"

definition markMetric :: "string \<Rightarrow> string" where
  \<open>markMetric match =
     ''<mark class="bg-blue-100 hover:bg-blue-200 cursor-help relative group">'' @ newline
     @ indent 8 @ match @ newline
     @ indent 8
     @ ''<span class="hidden group-hover:block absolute z-10 bg-white p-2 rounded shadow-lg text-sm">''
     @ newline
     @ indent 10 @ ''Quantifiable Achievement'' @ newline
     @ indent 8 @ ''</span>'' @ newline
     @ indent 6 @ ''</mark>''\<close>

definition metricCallback :: "string \<Rightarrow> string \<Rightarrow> nat \<Rightarrow> Change list \<Rightarrow> string \<times> Change list" where
  "metricCallback optText match offset newChanges =
     (markMetric match,
      newChanges @ [\<lparr>original = match, optimized = match, change_type = Metric,
                      change_context = contextOf optText match offset\<rparr>])"

text \<open>The weak verbs first, in the order of the object's entries, then the metrics, on
  the text the verbs left.\<close>

definition handleEnhance ::
  "(string \<Rightarrow> string) \<Rightarrow> (nat \<Rightarrow> rat) \<Rightarrow> resume_state \<Rightarrow> resume_state" where
  "handleEnhance sanitize rnd st =
     (let (enhanced, newChanges, k) =
            fold (enhanceVerb rnd (optimizedText st)) actionVerbReplacements
              (optimizedText st, changes st, 0);
          (enhanced', newChanges') =
            replaceAll metricRegex (metricCallback (optimizedText st)) enhanced newChanges
      in st\<lparr>optimizedText := sanitize enhanced', changes := newChanges'\<rparr>)"

text \<open>A random source that always draws one half, and a state with nothing recorded.\<close>

definition demoRnd :: "nat \<Rightarrow> rat" where
  "demoRnd k = 1 / 2"


subsection \<open>The changes of the keyword pass\<close>





subsection \<open>The changes of the enhancement pass\<close>

text \<open>A weak phrase is written in small letters and spaces; \<open>wellFormed\<close> says so of an
  entry of the mapping, and that the entry has a candidate. \<open>enhancedChange\<close> and
  \<open>metricChange\<close> are the changes that the two callbacks record for a match, and
  \<open>fromMapping\<close> says that a change pairs a weak phrase of the mapping, up to case, with
  one of its candidates.\<close>

definition lowerOrSpace :: "char \<Rightarrow> bool" where
  "lowerOrSpace l = (isLower l \<or> l = CHR '' '')"

definition enhancedChange ::
  "(nat \<Rightarrow> rat) \<Rightarrow> string \<Rightarrow> string list \<Rightarrow> string \<Rightarrow> nat \<Rightarrow> nat \<times> nat \<Rightarrow> Change" where
  "enhancedChange rnd optText strong s k sp =
     (case sp of (i, e) \<Rightarrow>
        \<lparr>original = jsSlice s (int i) (int e),
         optimized = elementAt strong (randomIndex (rnd k) (length strong)),
         change_type = Enhancement,
         change_context = contextOf optText (jsSlice s (int i) (int e)) i\<rparr>)"

definition fromMapping :: "(string \<times> string list) list \<Rightarrow> Change \<Rightarrow> bool" where
  "fromMapping entries c =
     (\<exists>(weak, strong) \<in> set entries.
        optimized c \<in> set strong \<and> toLowerCase (original c) = weak)"

definition wellFormed :: "string \<times> string list \<Rightarrow> bool" where
  "wellFormed entry = (case entry of (weak, strong) \<Rightarrow> strong \<noteq> [] \<and> list_all lowerOrSpace weak)"

definition metricChange :: "string \<Rightarrow> string \<Rightarrow> nat \<times> nat \<Rightarrow> Change" where
  "metricChange optText s sp =
     (case sp of (i, e) \<Rightarrow>
        \<lparr>original = jsSlice s (int i) (int e),
         optimized = jsSlice s (int i) (int e),
         change_type = Metric,
         change_context = contextOf optText (jsSlice s (int i) (int e)) i\<rparr>)"

text \<open>The code of the canonical form of a code unit, for comparing canonical forms by
  their codes; and the text of the metric example.\<close>

definition canonCode :: "nat \<Rightarrow> nat" where
  "canonCode n =
     (if (97 \<le> n \<and> n \<le> 122) \<or> (224 \<le> n \<and> n \<le> 254 \<and> n \<noteq> 247) then n - 32 else n)"

definition datedText :: string where
  "datedText = ''3/15/2024 saw a 20% increase''"

section \<open>Properties of the n-gram extraction\<close>

lemma map_fst_setProp: "set (map fst (setProp k v obj)) = insert k (set (map fst obj))"
proof (induction obj)
  case Nil
  then show ?case by simp
next
  case (Cons a obj)
  obtain k' v' where a: "a = (k', v')" by (cases a)
  show ?case
  proof (cases "k' = k")
    case True
    then show ?thesis by (simp add: a)
  next
    case False
    with Cons.IH show ?thesis by (simp add: a insert_commute)
  qed
qed

lemma setProp_keys: "fst ` set (setProp k v obj) = insert k (fst ` set obj)"
  using map_fst_setProp[of k v obj] by simp

lemma setProp_not_Nil: "setProp k v obj \<noteq> []"
  by (cases obj) (auto split: if_splits)

lemma countPhrase_keys:
  "fst ` set (countPhrase ex p obj) = (if p \<in> ex then fst ` set obj else insert p (fst ` set obj))"
  by (simp add: countPhrase_def setProp_keys)

lemma fold_countPhrase_keys:
  "fst ` set (fold (countPhrase ex) ps obj) = fst ` set obj \<union> (set ps - ex)"
proof (induction ps arbitrary: obj)
  case Nil
  then show ?case by simp
next
  case (Cons p ps)
  show ?case
    unfolding fold_simps Cons.IH countPhrase_keys by auto
qed

lemma set_insertBy: "set (insertBy cmp a bs) = insert a (set bs)"
  by (induction bs) (auto split: option.splits)

lemma set_sortBy: "set (sortBy cmp xs) = set xs"
  by (induction xs) (simp_all add: sortBy_def set_insertBy)

lemma length_insertBy: "length (insertBy cmp a bs) = Suc (length bs)"
  by (induction bs) (auto split: option.splits)

lemma length_sortBy: "length (sortBy cmp xs) = length xs"
  by (induction xs) (simp_all add: sortBy_def length_insertBy)

lemma set_jsSlice: "set (jsSlice xs a b) \<subseteq> set xs"
  unfolding jsSlice_def Let_def
  by (meson set_drop_subset set_take_subset subset_trans)

lemma jsSlice_0: "0 \<le> limit \<Longrightarrow> jsSlice xs 0 limit = take (nat limit) xs"
  by (auto simp: jsSlice_def Let_def min_def)

lemma generateNgrams_keys:
  "ngram_text ` set (generateNgrams stop st txt n limit)
     \<subseteq> set (phrases (cleanWords stop txt) n) - excludedWords st"
proof -
  let ?obj = "fold (countPhrase (excludedWords st)) (phrases (cleanWords stop txt) n) []"
  have "set (generateNgrams stop st txt n limit)
          \<subseteq> set (map (\<lambda>(t, v). \<lparr>ngram_text = t, ngram_value = v\<rparr>) ?obj)"
    unfolding generateNgrams_def Let_def
    using set_jsSlice set_sortBy by (metis (no_types, lifting))
  then have "ngram_text ` set (generateNgrams stop st txt n limit) \<subseteq> fst ` set ?obj"
    by force
  then show ?thesis
    by (simp add: fold_countPhrase_keys)
qed

text \<open>
  Claim C9. For every text, window size, limit and stop list, a phrase that is in the
  excluded set of the component is the text of no n-gram that \<open>generateNgrams\<close> returns:
  the loop skips it, so it has no count at all.
\<close>

theorem excluded_phrase_absent:
  "p \<in> excludedWords st \<Longrightarrow> p \<notin> ngram_text ` set (generateNgrams stop st txt n limit)"
  using generateNgrams_keys by blast

theorem excluded_phrase_absent_witness:
  "''quick'' \<in> excludedWords demoCloudExcl
   \<and> ''quick'' \<notin> ngram_text `
         set (generateNgrams demoStop demoCloudExcl ''The quick brown fox and the quick dog'' 1 15)"
proof -
  have h: "''quick'' \<in> excludedWords demoCloudExcl"
    by (simp add: demoCloudExcl_def)
  show ?thesis
    using h excluded_phrase_absent [OF h] by blast
qed


lemma getProp_Cons:
  "getProp ((k', v') # obj) k = (if k' = k then Some v' else getProp obj k)"
  by (simp add: getProp_def)

lemma totalCount_bump:
  "numeric obj \<Longrightarrow> k \<noteq> ''constructor'' \<Longrightarrow>
   totalCount (setProp k (orZeroPlusOne (getProp obj k)) obj) = Suc (totalCount obj)
   \<and> numeric (setProp k (orZeroPlusOne (getProp obj k)) obj)"
proof (induction obj)
  case Nil
  then show ?case by (simp add: getProp_def totalCount_def numeric_def)
next
  case (Cons a obj)
  obtain k' v' where a: "a = (k', v')" by (cases a)
  from Cons.prems have num: "numeric obj" and v': "\<exists>c. 1 \<le> c \<and> v' = Num c"
    by (auto simp: numeric_def a)
  show ?case
  proof (cases "k' = k")
    case True
    with v' num show ?thesis
      by (auto simp: a getProp_Cons totalCount_def numeric_def)
  next
    case False
    with Cons.IH[OF num Cons.prems(2)] v' show ?thesis
      by (auto simp: a getProp_Cons totalCount_def numeric_def)
  qed
qed

lemma fold_countPhrase_totalCount:
  "numeric obj \<Longrightarrow> ''constructor'' \<notin> set ps - ex \<Longrightarrow>
   totalCount (fold (countPhrase ex) ps obj) = totalCount obj + length (filter (\<lambda>p. p \<notin> ex) ps)
   \<and> numeric (fold (countPhrase ex) ps obj)"
proof (induction ps arbitrary: obj)
  case Nil
  then show ?case by simp
next
  case (Cons p ps)
  show ?case
  proof (cases "p \<in> ex")
    case True
    with Cons show ?thesis by (simp add: countPhrase_def)
  next
    case False
    with Cons.prems have ne: "p \<noteq> ''constructor''" by auto
    from totalCount_bump[OF Cons.prems(1) ne]
    have st: "totalCount (countPhrase ex p obj) = Suc (totalCount obj)" "numeric (countPhrase ex p obj)"
      using False by (simp_all add: countPhrase_def)
    from Cons.prems(2) have "''constructor'' \<notin> set ps - ex" by auto
    from Cons.IH[OF st(2) this] st(1) False show ?thesis by simp
  qed
qed


lemma generateNgrams_entries:
  "generateNgrams stop st txt n limit = jsSlice (sortBy byValueDesc (ngramEntries stop st txt n)) 0 limit"
  by (simp add: generateNgrams_def ngramEntries_def)

lemma jsSlice_0_take: "\<exists>m. jsSlice xs 0 limit = take m xs"
  by (auto simp: jsSlice_def Let_def)

lemma sum_insertBy: "sum_list (map f (insertBy cmp a bs)) = (f a :: nat) + sum_list (map f bs)"
  by (induction bs) (auto split: option.splits)

lemma sum_sortBy: "sum_list (map f (sortBy cmp xs)) = sum_list (map (f :: 'a \<Rightarrow> nat) xs)"
  by (induction xs) (simp_all add: sortBy_def sum_insertBy)

lemma sum_take_le: "sum_list (map f (take m xs)) \<le> sum_list (map (f :: 'a \<Rightarrow> nat) xs)"
proof -
  have "sum_list (map f xs) = sum_list (map f (take m xs)) + sum_list (map f (drop m xs))"
    by (metis append_take_drop_id map_append sum_list_append)
  then show ?thesis by simp
qed

lemma length_phrases: "length (phrases cw n) = nat (int (length cw) - n + 1)"
  by (simp add: phrases_def)

lemma numeric_Nil: "numeric []"
  by (simp add: numeric_def)

lemma totalCount_Nil: "totalCount [] = 0"
  by (simp add: totalCount_def)

lemma generateNgrams_counts:
  assumes n: "1 \<le> n" and limit: "0 \<le> limit"
    and ctor: "''constructor'' \<notin> set (phrases (cleanWords stop txt) n) - excludedWords st"
  shows "int (length (generateNgrams stop st txt n limit)) \<le> limit
       \<and> (\<forall>w \<in> set (generateNgrams stop st txt n limit). \<exists>c. 1 \<le> c \<and> ngram_value w = Num c)
       \<and> sum_list (map (\<lambda>w. numOf (ngram_value w)) (generateNgrams stop st txt n limit))
           \<le> nat (int (length (cleanWords stop txt)) - n + 1)"
proof -
  let ?ps = "phrases (cleanWords stop txt) n"
  let ?obj = "fold (countPhrase (excludedWords st)) ?ps []"
  let ?es = "ngramEntries stop st txt n"
  let ?f = "\<lambda>w. numOf (ngram_value w)"
  from fold_countPhrase_totalCount[OF numeric_Nil ctor]
  have tot: "totalCount ?obj = length (filter (\<lambda>p. p \<notin> excludedWords st) ?ps)" and num: "numeric ?obj"
    by (simp_all add: totalCount_Nil)
  have gen: "generateNgrams stop st txt n limit = take (nat limit) (sortBy byValueDesc ?es)"
    by (simp add: generateNgrams_entries jsSlice_0[OF limit])
  have len: "int (length (generateNgrams stop st txt n limit)) \<le> limit"
    using limit by (simp add: gen)
  have "set (generateNgrams stop st txt n limit) \<subseteq> set ?es"
    unfolding gen using set_take_subset set_sortBy by metis
  moreover have "\<forall>w \<in> set ?es. \<exists>c. 1 \<le> c \<and> ngram_value w = Num c"
    using num by (auto simp: ngramEntries_def numeric_def)
  ultimately have vals: "\<forall>w \<in> set (generateNgrams stop st txt n limit). \<exists>c. 1 \<le> c \<and> ngram_value w = Num c"
    by blast
  have "sum_list (map ?f ?es) = totalCount ?obj"
    by (simp add: ngramEntries_def totalCount_def comp_def case_prod_unfold)
  then have "sum_list (map ?f (generateNgrams stop st txt n limit)) \<le> totalCount ?obj"
    unfolding gen using sum_take_le[of ?f "nat limit" "sortBy byValueDesc ?es"]
    by (simp add: sum_sortBy)
  also have "\<dots> \<le> length ?ps"
    by (simp add: tot)
  finally have "sum_list (map ?f (generateNgrams stop st txt n limit))
                  \<le> nat (int (length (cleanWords stop txt)) - n + 1)"
    by (simp add: length_phrases)
  with len vals show ?thesis by blast
qed

lemma cleanWords_constructor:
  "''constructor'' \<notin> set stop \<Longrightarrow> cleanWords stop ''constructor'' = [''constructor'']"
  by (simp add: cleanWords_def removeStopwords_def splitWs_def toLowerCase_def toLowerChar_def
      isAlpha_def isUpper_def isLower_def isSpace_def code_def)

lemma phrases_single: "phrases [w] 1 = [w]"
  by (simp add: phrases_def jsSlice_def upto.simps)

text \<open>
  Claim C5, at the text \<^verbatim>\<open>constructor\<close> with window size 1. The counting object is an
  object literal, so the first read of \<^verbatim>\<open>ngrams["constructor"]\<close> finds the inherited
  function and \<^verbatim>\<open>(ngrams[phrase] || 0) + 1\<close> is a string. Whenever the stop list and
  the excluded set do not hold the word and the limit is at least 1, the extractor
  returns one n-gram whose value is that string and not a count: the claim's
  \<open>value \<ge> 1\<close> and its bound on the sum of the values fail there.
  (\<open>generateNgrams_counts\<close> above is the claim on every input where no counted phrase is
  \<^verbatim>\<open>constructor\<close> and the limit is not negative.)
\<close>

theorem generateNgrams_constructor:
  assumes "''constructor'' \<notin> set stop" and "''constructor'' \<notin> excludedWords st" and "1 \<le> limit"
  shows "generateNgrams stop st ''constructor'' 1 limit
           = [\<lparr>ngram_text = ''constructor'',
               ngram_value = Str ''function Object() { [native code] }1''\<rparr>]"
proof -
  have "jsSlice [x] 0 limit = [x]" for x :: ngram
    using assms(3) by (simp add: jsSlice_def)
  then show ?thesis
    using assms(1,2)
    by (simp add: generateNgrams_def cleanWords_constructor phrases_single countPhrase_def
        getProp_def sortBy_def objectCtorText_def)
qed


theorem generateNgrams_constructor_witness:
  "''constructor'' \<notin> set demoStop \<and> ''constructor'' \<notin> excludedWords demoCloud \<and> (1::int) \<le> 15
   \<and> generateNgrams demoStop demoCloud ''constructor'' 1 15
       = [\<lparr>ngram_text = ''constructor'',
           ngram_value = Str ''function Object() { [native code] }1''\<rparr>]"
proof -
  have h1: "''constructor'' \<notin> set demoStop"
    by (simp add: demoStop_def)
  have h2: "''constructor'' \<notin> excludedWords demoCloud"
    by (simp add: demoCloud_def)
  have h3: "(1::int) \<le> 15"
    by simp
  show ?thesis
    using h1 h2 h3 generateNgrams_constructor [OF h1 h2 h3] by blast
qed


lemma jsSlice_empty_range: "jsSlice xs i i = []"
  by (simp add: jsSlice_def Let_def)

lemma phrases_zero: "phrases cw 0 = replicate (Suc (length cw)) []"
proof -
  have "phrases cw 0 = map (\<lambda>i. []) [0..int (length cw)]"
    by (simp add: phrases_def jsSlice_empty_range)
  also have "\<dots> = replicate (length [0..int (length cw)]) []"
    by (simp add: map_replicate_const)
  finally show ?thesis by (simp add: nat_add_distrib)
qed

lemma fold_countPhrase_replicate:
  "[] \<notin> ex \<Longrightarrow>
   fold (countPhrase ex) (replicate m []) [([], Num c)] = [([], Num (c + m))]"
  by (induction m arbitrary: c) (simp_all add: countPhrase_def getProp_def)

lemma fold_countPhrase_zero:
  assumes "[] \<notin> ex"
  shows "fold (countPhrase ex) (replicate (Suc m) []) [] = [([], Num (Suc m))]"
proof -
  have "fold (countPhrase ex) (replicate (Suc m) []) []
          = fold (countPhrase ex) (replicate m []) [([], Num 1)]"
    using assms by (simp add: countPhrase_def getProp_def)
  then show ?thesis
    using fold_countPhrase_replicate[OF assms, of m 1] by simp
qed

lemma phrases_nonempty: "n < 1 \<Longrightarrow> phrases cw n \<noteq> []"
proof -
  assume "n < 1"
  then have "length (phrases cw n) > 0"
    by (simp add: length_phrases)
  then show ?thesis by auto
qed

lemma fold_countPhrase_nonempty:
  assumes "ps \<noteq> []"
  shows "fold (countPhrase {}) ps [] \<noteq> []"
proof -
  have "fst ` set (fold (countPhrase {}) ps []) = set ps"
    by (simp add: fold_countPhrase_keys)
  with assms show ?thesis by auto
qed

text \<open>
  Claim C2, as the code has it. \<open>generateNgrams\<close> has no check on the window size and no
  error outcome: with \<open>n < 1\<close> the loop runs as for any other \<open>n\<close>. For every text and
  stop list and every limit of at least 1, a call with \<open>n < 1\<close> and nothing excluded
  returns a non-empty list, and a call with \<open>n = 0\<close> where the empty phrase is not
  excluded returns exactly one n-gram: the empty phrase, counted once more than there
  are cleaned tokens.
\<close>

theorem generateNgrams_nonpositive_n:
  assumes "n < 1" and "1 \<le> limit"
  shows "(excludedWords st = {} \<longrightarrow> generateNgrams stop st txt n limit \<noteq> [])
       \<and> (n = 0 \<and> [] \<notin> excludedWords st \<longrightarrow>
            generateNgrams stop st txt n limit
              = [\<lparr>ngram_text = [], ngram_value = Num (length (cleanWords stop txt) + 1)\<rparr>])"
proof (intro conjI impI)
  assume ex: "excludedWords st = {}"
  let ?es = "sortBy byValueDesc (ngramEntries stop st txt n)"
  have "ngramEntries stop st txt n \<noteq> []"
    using phrases_nonempty[OF assms(1)] fold_countPhrase_nonempty
    by (simp add: ngramEntries_def ex)
  then have "?es \<noteq> []"
    using length_sortBy[of byValueDesc "ngramEntries stop st txt n"] by auto
  moreover have "generateNgrams stop st txt n limit = take (nat limit) ?es"
    using assms(2) by (simp add: generateNgrams_entries jsSlice_0)
  ultimately show "generateNgrams stop st txt n limit \<noteq> []"
    using assms(2) by simp
next
  assume z: "n = 0 \<and> [] \<notin> excludedWords st"
  have "jsSlice [x] 0 limit = [x]" for x :: ngram
    using assms(2) by (simp add: jsSlice_def)
  with z show "generateNgrams stop st txt n limit
      = [\<lparr>ngram_text = [], ngram_value = Num (length (cleanWords stop txt) + 1)\<rparr>]"
    by (simp add: generateNgrams_def phrases_zero fold_countPhrase_zero sortBy_def
        del: replicate.simps fold_replicate)
qed

theorem generateNgrams_nonpositive_n_witness:
  "(0::int) < 1 \<and> (1::int) \<le> 15 \<and> excludedWords demoCloud = {} \<and> [] \<notin> excludedWords demoCloud
   \<and> generateNgrams demoStop demoCloud ''alpha beta'' 0 15 \<noteq> []
   \<and> generateNgrams demoStop demoCloud ''alpha beta'' 0 15
       = [\<lparr>ngram_text = [], ngram_value = Num 3\<rparr>]"
proof -
  have h1: "(0::int) < 1" and h2: "(1::int) \<le> 15"
    by simp_all
  have h3: "excludedWords demoCloud = {}"
    by (simp add: demoCloud_def)
  have len: "length (cleanWords demoStop ''alpha beta'') + 1 = 3"
    by code_simp
  show ?thesis
    using h3 len generateNgrams_nonpositive_n [OF h1 h2, of demoCloud demoStop "''alpha beta''"]
    by simp
qed

text \<open>
  Claim C2 as stated fails: the call with the empty text and \<open>n = 0\<close> is not rejected, it
  returns a result.
\<close>

theorem generateNgrams_zero_counterexample:
  "generateNgrams demoStop demoCloud [] 0 15 = [\<lparr>ngram_text = [], ngram_value = Num 1\<rparr>]"
  by code_simp


lemma filter_insertBy:
  "filter (\<lambda>w. ngram_value w = v) (insertBy byValueDesc a bs)
     = filter (\<lambda>w. ngram_value w = v) (a # bs)"
  by (induction bs) (auto simp: byValueDesc_def split: option.splits jsvalue.splits)

lemma filter_sortBy:
  "filter (\<lambda>w. ngram_value w = v) (sortBy byValueDesc xs) = filter (\<lambda>w. ngram_value w = v) xs"
proof (induction xs)
  case Nil
  then show ?case by (simp add: sortBy_def)
next
  case (Cons a xs)
  have "sortBy byValueDesc (a # xs) = insertBy byValueDesc a (sortBy byValueDesc xs)"
    by (simp add: sortBy_def)
  with Cons show ?case by (simp add: filter_insertBy del: insertBy.simps)
qed

lemma byValueDesc_Num:
  "ngram_value a = Num x \<Longrightarrow> ngram_value b = Num y \<Longrightarrow> byValueDesc a b = Some (int y - int x)"
  by (simp add: byValueDesc_def)

lemma descending_insertBy:
  assumes "\<forall>w \<in> set (a # bs). \<exists>c. ngram_value w = Num c" and "descending bs"
  shows "descending (insertBy byValueDesc a bs)"
  using assms unfolding descending_def
proof (induction bs)
  case Nil
  then show ?case by simp
next
  case (Cons b bs)
  obtain x y where xy: "ngram_value a = Num x" "ngram_value b = Num y"
    using Cons.prems(1) by auto
  show ?case
  proof (cases "x < y")
    case True
    have "sorted_wrt (\<lambda>a b. numOf (ngram_value b) \<le> numOf (ngram_value a)) (insertBy byValueDesc a bs)"
      using Cons by auto
    moreover have "\<forall>w \<in> set (insertBy byValueDesc a bs). numOf (ngram_value w) \<le> y"
      using Cons.prems(2) True xy by (auto simp: set_insertBy)
    ultimately show ?thesis using True xy by (simp add: byValueDesc_Num)
  next
    case False
    then have "\<forall>w \<in> set (b # bs). numOf (ngram_value w) \<le> x"
      using Cons.prems(2) xy by fastforce
    with False xy Cons.prems(2) show ?thesis by (simp add: byValueDesc_Num)
  qed
qed

lemma descending_sortBy:
  "\<forall>w \<in> set xs. \<exists>c. ngram_value w = Num c \<Longrightarrow> descending (sortBy byValueDesc xs)"
proof (induction xs)
  case Nil
  then show ?case by (simp add: sortBy_def descending_def)
next
  case (Cons a xs)
  have "sortBy byValueDesc (a # xs) = insertBy byValueDesc a (sortBy byValueDesc xs)"
    by (simp add: sortBy_def)
  moreover have "\<forall>w \<in> set (a # sortBy byValueDesc xs). \<exists>c. ngram_value w = Num c"
    using Cons.prems by (simp add: set_sortBy)
  ultimately show ?case
    using Cons descending_insertBy by simp
qed

lemma isNum_iff: "isNum v \<longleftrightarrow> (\<exists>c. v = Num c)"
  by (cases v) simp_all

lemma prefix_filter_take: "prefix (filter P (take m xs)) (filter P xs)"
  by (metis append_take_drop_id filter_append prefixI)

text \<open>
  Claim C7. The output of \<open>generateNgrams\<close> is fixed by the text, the window size, the limit
  and the excluded set (and the stop list of the package): two runs in states of the
  component that agree on the excluded set return the same list, in the same order,
  whatever the other state variables hold. The order itself is fixed as well: when all
  values are counts the returned list is descending by count, and for every value the
  returned n-grams with that value form a prefix of the n-grams with that value in the
  order in which their phrases were first counted (ties keep discovery order).
\<close>

theorem generateNgrams_deterministic:
  assumes "excludedWords s1 = excludedWords s2"
  shows "generateNgrams stop s1 txt n limit = generateNgrams stop s2 txt n limit
       \<and> ((\<forall>w \<in> set (ngramEntries stop s1 txt n). isNum (ngram_value w)) \<longrightarrow>
            descending (generateNgrams stop s1 txt n limit)
          \<and> (\<forall>v. prefix (filter (\<lambda>w. ngram_value w = v) (generateNgrams stop s1 txt n limit))
                        (filter (\<lambda>w. ngram_value w = v) (ngramEntries stop s1 txt n))))"
proof (intro conjI impI allI)
  show "generateNgrams stop s1 txt n limit = generateNgrams stop s2 txt n limit"
    using assms by (simp add: generateNgrams_def)
next
  obtain m where m: "generateNgrams stop s1 txt n limit
      = take m (sortBy byValueDesc (ngramEntries stop s1 txt n))"
    using jsSlice_0_take generateNgrams_entries by metis
  {
    assume "\<forall>w \<in> set (ngramEntries stop s1 txt n). isNum (ngram_value w)"
    then have "\<forall>w \<in> set (ngramEntries stop s1 txt n). \<exists>c. ngram_value w = Num c"
      by (simp add: isNum_iff)
    then have "descending (sortBy byValueDesc (ngramEntries stop s1 txt n))"
      by (rule descending_sortBy)
    then show "descending (generateNgrams stop s1 txt n limit)"
      unfolding m descending_def by (rule sorted_wrt_take)
  }
  fix v
  show "prefix (filter (\<lambda>w. ngram_value w = v) (generateNgrams stop s1 txt n limit))
               (filter (\<lambda>w. ngram_value w = v) (ngramEntries stop s1 txt n))"
    unfolding m using prefix_filter_take[of "\<lambda>w. ngram_value w = v" m] filter_sortBy by metis
qed

theorem generateNgrams_deterministic_witness:
  "excludedWords demoCloud = excludedWords demoCloud2
   \<and> list_all (\<lambda>w. isNum (ngram_value w))
         (ngramEntries demoStop demoCloud ''quick fox and quick dog'' 1)
   \<and> generateNgrams demoStop demoCloud ''quick fox and quick dog'' 1 2
       = generateNgrams demoStop demoCloud2 ''quick fox and quick dog'' 1 2
   \<and> descending (generateNgrams demoStop demoCloud ''quick fox and quick dog'' 1 2)
   \<and> (\<forall>v. prefix
          (filter (\<lambda>w. ngram_value w = v)
             (generateNgrams demoStop demoCloud ''quick fox and quick dog'' 1 2))
          (filter (\<lambda>w. ngram_value w = v)
             (ngramEntries demoStop demoCloud ''quick fox and quick dog'' 1)))"
proof -
  have h1: "excludedWords demoCloud = excludedWords demoCloud2"
    by (simp add: demoCloud_def demoCloud2_def)
  have h2: "list_all (\<lambda>w. isNum (ngram_value w))
              (ngramEntries demoStop demoCloud ''quick fox and quick dog'' 1)"
    by code_simp
  then have h2': "\<forall>w \<in> set (ngramEntries demoStop demoCloud ''quick fox and quick dog'' 1).
              isNum (ngram_value w)"
    by (simp add: list_all_iff)
  show ?thesis
    using h1 h2 h2'
      generateNgrams_deterministic [OF h1, of demoStop "''quick fox and quick dog''" 1 2]
    by blast
qed
section \<open>Properties of the scoring\<close>

lemma startsWith_iff: "startsWith s p \<longleftrightarrow> (\<exists>b. s = p @ b)"
  by (induction s p rule: startsWith.induct) auto

lemma includesStr_iff: "includesStr s p \<longleftrightarrow> (\<exists>a b. s = a @ p @ b)"
proof (induction s)
  case Nil
  then show ?case by simp
next
  case (Cons c cs)
  show ?case
  proof
    assume "includesStr (c # cs) p"
    then consider "startsWith (c # cs) p" | "includesStr cs p" by auto
    then show "\<exists>a b. c # cs = a @ p @ b"
    proof cases
      case 1
      then obtain b where "c # cs = p @ b" by (auto simp: startsWith_iff)
      then have "c # cs = [] @ p @ b" by simp
      then show ?thesis by blast
    next
      case 2
      with Cons obtain a b where "cs = a @ p @ b" by auto
      then have "c # cs = (c # a) @ p @ b" by simp
      then show ?thesis by blast
    qed
  next
    assume "\<exists>a b. c # cs = a @ p @ b"
    then obtain a b where ab: "c # cs = a @ p @ b" by auto
    show "includesStr (c # cs) p"
    proof (cases a)
      case Nil
      with ab have "startsWith (c # cs) p" by (auto simp: startsWith_iff)
      then show ?thesis by simp
    next
      case (Cons a0 as)
      with ab have "cs = as @ p @ b" by simp
      with Cons.IH show ?thesis by auto
    qed
  qed
qed

lemma splitAux_pieces:
  "w \<in> set (splitAux cs cur sep) \<Longrightarrow> (sep \<longrightarrow> cur = []) \<Longrightarrow>
     (\<exists>p r. cs = p @ r \<and> w = rev cur @ p) \<or> (\<exists>a b. cs = a @ w @ b)"
proof (induction cs arbitrary: cur sep)
  case Nil
  then show ?case by simp
next
  case (Cons c cs)
  show ?case
  proof (cases "isSpace c")
    case False
    with Cons.prems have "w \<in> set (splitAux cs (c # cur) False)" by simp
    from Cons.IH[OF this] have
      "(\<exists>p r. cs = p @ r \<and> w = rev (c # cur) @ p) \<or> (\<exists>a b. cs = a @ w @ b)"
      by simp
    then show ?thesis
    proof
      assume "\<exists>p r. cs = p @ r \<and> w = rev (c # cur) @ p"
      then obtain p r where "cs = p @ r" "w = rev cur @ (c # p)" by auto
      then have "c # cs = (c # p) @ r \<and> w = rev cur @ (c # p)" by simp
      then show ?thesis by blast
    next
      assume "\<exists>a b. cs = a @ w @ b"
      then obtain a b where "cs = a @ w @ b" by auto
      then have "c # cs = (c # a) @ w @ b" by simp
      then show ?thesis by blast
    qed
  next
    case True
    have inside: "\<exists>a b. c # cs = a @ w @ b" if "w \<in> set (splitAux cs [] True)"
    proof -
      from Cons.IH[OF that] have "\<exists>a b. cs = a @ w @ b"
        by (metis append_Nil rev.simps(1))
      then obtain a b where "cs = a @ w @ b" by auto
      then have "c # cs = (c # a) @ w @ b" by simp
      then show ?thesis by blast
    qed
    from True Cons.prems consider "w = rev cur" | "w \<in> set (splitAux cs cur True)" "sep"
      | "w \<in> set (splitAux cs [] True)" "\<not> sep"
      by (auto split: if_splits)
    then show ?thesis
    proof cases
      case 1
      then have "c # cs = [] @ (c # cs) \<and> w = rev cur @ []" by simp
      then show ?thesis by blast
    next
      case 2
      with Cons.prems(2) have "cur = []" by simp
      with 2 inside show ?thesis by simp
    next
      case 3
      with inside show ?thesis by simp
    qed
  qed
qed


lemma token_is_substring: "w \<in> set (splitWs s) \<Longrightarrow> includesStr s w"
proof -
  assume "w \<in> set (splitWs s)"
  then have "w \<in> set (splitAux s [] False)" by (simp add: splitWs_def)
  from splitAux_pieces[OF this] have "\<exists>a b. s = a @ w @ b"
    by (metis append_Nil rev.simps(1))
  then show ?thesis by (simp add: includesStr_iff)
qed

lemma analyzeKeywords_lists:
  "(case analyzeKeywords selected txt of (matches, missing, score) \<Rightarrow>
      matches = map (\<lambda>word. \<lparr>kw_word = word, kw_count = tokenCount txt word\<rparr>)
                  (filter (\<lambda>word. tokenCount txt word > 0) selected)
    \<and> missing = filter (\<lambda>word. \<not> includesStr (toLowerCase txt) (toLowerCase word)) selected
    \<and> (\<forall>word \<in> set missing. tokenCount txt word = 0)
    \<and> score = jsTimes (jsDivide (lengthOf matches) (lengthOf selected)) (Number 100))"
proof -
  have m: "filter (\<lambda>m. kw_count m > 0)
             (map (\<lambda>word. \<lparr>kw_word = word, kw_count = tokenCount txt word\<rparr>) selected)
           = map (\<lambda>word. \<lparr>kw_word = word, kw_count = tokenCount txt word\<rparr>)
               (filter (\<lambda>word. tokenCount txt word > 0) selected)"
    by (simp add: filter_map comp_def)
  have z: "tokenCount txt word = 0"
    if "\<not> includesStr (toLowerCase txt) (toLowerCase word)" for word
  proof -
    from that token_is_substring have "toLowerCase word \<notin> set (splitWs (toLowerCase txt))"
      by blast
    then show ?thesis
      by (auto simp: tokenCount_def filter_empty_conv)
  qed
  show ?thesis
    using m z by (simp add: analyzeKeywords_def Let_def tokenCount_def)
qed

text \<open>
  Claim C4, at the text \<^verbatim>\<open>javascript developer\<close> with the one keyword \<^verbatim>\<open>java\<close>. The
  keyword equals no token of the text, so it is not among the matches and the score is
  0; but the missing list is filtered by \<^verbatim>\<open>includes\<close>, and the keyword is a substring
  of the text, so it is not among the missing keywords either. The keyword is accounted
  for in neither list, where the claim puts every keyword without a token occurrence
  in the missing list. (\<open>analyzeKeywords_lists\<close> above gives what the two lists and
  the score are on every input.)
\<close>

theorem analyzeKeywords_substring_not_missing:
  "analyzeKeywords [''java''] ''javascript developer'' = ([], [], Number 0)"
  by code_simp

text \<open>
  Claim C3, as the code has it. With an empty keyword list the upload handler completes
  for every text, and the keyword score is NaN: it is the quotient \<open>0 / 0\<close> of the two
  list lengths, times 100, with no guard and no convention of 100. The overall score,
  an average that includes it, is NaN too; both keyword lists are empty.
\<close>

theorem empty_keywords_score_NaN:
  "keywordMatch (atsScore (handleFileUpload [] txt st)) = NaN
   \<and> overall (atsScore (handleFileUpload [] txt st)) = NaN
   \<and> keywordMatches (handleFileUpload [] txt st) = []
   \<and> missingKeywords (handleFileUpload [] txt st) = []"
  by (simp add: handleFileUpload_def Let_def split_beta analyzeKeywords_def lengthOf_def)

text \<open>
  Claim C3 as stated fails: for the empty text and the empty keyword list the keyword
  score is the value of \<open>0 / 0 * 100\<close>, which is NaN and not 100.
\<close>

theorem empty_keywords_counterexample:
  "keywordMatch (atsScore (handleFileUpload [] [] initialATS))
     = jsTimes (jsDivide (lengthOf ([] :: KeywordCount list)) (lengthOf ([] :: string list)))
         (Number 100)
   \<and> jsDivide (lengthOf ([] :: KeywordCount list)) (lengthOf ([] :: string list)) = NaN
   \<and> keywordMatch (atsScore (handleFileUpload [] [] initialATS)) = NaN
   \<and> keywordMatch (atsScore (handleFileUpload [] [] initialATS)) \<noteq> Number 100"
  by (simp add: handleFileUpload_def Let_def split_beta analyzeKeywords_def lengthOf_def)

text \<open>
  Claim C6. For every text, keyword list and state, the overall score that the upload
  handler stores is the sum of the stored keyword, readability, formatting and
  certification scores divided by 4, with equal weights, and these four are the scores
  of the four analyses of the text. The font analysis runs too: its checks are stored
  in the state and its score is 0 or 100, but the score is no term of the average.
\<close>

theorem overall_mean_of_four:
  "(let s = atsScore (handleFileUpload selected txt st) in
      overall s
        = jsDivide
            (jsPlus (jsPlus (jsPlus (keywordMatch s) (readability s)) (formatting s))
               (certifications s))
            (Number 4)
    \<and> keywordMatch s = snd (snd (analyzeKeywords selected txt))
    \<and> readability s = snd (analyzeReadability txt)
    \<and> formatting s = calculateFormattingScore txt
    \<and> certifications s = snd (analyzeCertifications txt))
   \<and> fontChecks (handleFileUpload selected txt st) = fst (analyzeFonts txt)
   \<and> snd (analyzeFonts txt) \<in> {Number 0, Number 100}"
  by (simp add: handleFileUpload_def Let_def split_beta analyzeFonts_def)

section \<open>Properties of the rewriting\<close>

lemma replaceLoop_state:
  "snd (replaceLoop cb s pos spans st)
     = fold (\<lambda>(i, e) st. snd (cb (jsSlice s (int i) (int e)) i st)) spans st"
  by (induction spans arbitrary: pos st) (auto simp: split_beta Let_def)








lemma code_eq_iff: "c = d \<longleftrightarrow> code c = code d"
  by (simp add: code_def)

lemma code_less: "code c < 256"
  by (simp add: code_def)

lemma code_canonicalize:
  "code (canonicalize c)
     = (if isLower c \<or> (224 \<le> code c \<and> code c \<le> 254 \<and> code c \<noteq> 247)
        then code c - 32 else code c)"
proof -
  have "(code c - 32) mod 256 = code c - 32"
    using code_less[of c] by simp
  then show ?thesis
    by (simp add: canonicalize_def code_def)
qed

lemma code_toLowerChar:
  "code (toLowerChar c)
     = (if isUpper c \<or> (192 \<le> code c \<and> code c \<le> 222 \<and> code c \<noteq> 215)
        then code c + 32 else code c)"
proof -
  have "(code c + 32) mod 256 = code c + 32"
    if "isUpper c \<or> (192 \<le> code c \<and> code c \<le> 222 \<and> code c \<noteq> 215)"
    using that by (auto simp: isUpper_def)
  then show ?thesis
    by (auto simp: toLowerChar_def code_def)
qed

lemma canonical_match_lower:
  assumes "lowerOrSpace l" and "canonicalize c = canonicalize l"
  shows "toLowerChar c = l"
proof -
  from assms(1) have l: "(97 \<le> code l \<and> code l \<le> 122) \<or> code l = 32"
    by (auto simp: lowerOrSpace_def isLower_def code_def)
  then have cl: "code (canonicalize l) = (if code l = 32 then 32 else code l - 32)"
    by (auto simp: code_canonicalize isLower_def)
  from assms(2) have eq: "code (canonicalize c) = (if code l = 32 then 32 else code l - 32)"
    using cl by simp
  have "code (toLowerChar c) = code l"
  proof (cases "isLower c \<or> (224 \<le> code c \<and> code c \<le> 254 \<and> code c \<noteq> 247)")
    case True
    then have big: "97 \<le> code c"
      by (auto simp: isLower_def)
    have "code (canonicalize c) = code c - 32"
      by (simp only: code_canonicalize True if_True)
    with eq have e: "code c - 32 = (if code l = 32 then 32 else code l - 32)"
      by simp
    have same: "code c = code l"
    proof (cases "code l = 32")
      case True
      with e big show ?thesis by simp
    next
      case False
      with e l big show ?thesis by simp
    qed
    from True big l same have "\<not> (isUpper c \<or> (192 \<le> code c \<and> code c \<le> 222 \<and> code c \<noteq> 215))"
      by (simp add: isUpper_def isLower_def)
    then show ?thesis
      using same by (simp add: code_toLowerChar)
  next
    case False
    have "code (canonicalize c) = code c"
      by (simp only: code_canonicalize False if_False)
    with eq have e: "code c = (if code l = 32 then 32 else code l - 32)"
      by simp
    show ?thesis
    proof (cases "code l = 32")
      case True
      with e have "code c = 32" by simp
      with True show ?thesis
        by (simp add: code_toLowerChar isUpper_def)
    next
      case False
      with e l have "code c = code l - 32" "97 \<le> code l" "code l \<le> 122"
        by simp_all
      then have "65 \<le> code c \<and> code c \<le> 90 \<and> code c + 32 = code l"
        by arith
      then have "isUpper c" "code c + 32 = code l"
        by (simp_all add: isUpper_def)
      then show ?thesis
        by (simp add: code_toLowerChar)
    qed
  qed
  then show ?thesis by (simp add: code_eq_iff)
qed

lemma canonical_match_lower_list:
  assumes "\<forall>l \<in> set w. lowerOrSpace l" and "map canonicalize x = map canonicalize w"
  shows "toLowerCase x = w"
proof -
  from assms(2) have "length x = length w"
    by (rule map_eq_imp_length_eq)
  then show ?thesis
    using assms
  proof (induction x w rule: list_induct2)
    case Nil
    then show ?case by (simp add: toLowerCase_def)
  next
    case (Cons c x l w)
    then show ?case
      by (simp add: toLowerCase_def canonical_match_lower)
  qed
qed

lemma in_mSeq: "e \<in> set (mSeq a b s i) \<longleftrightarrow> (\<exists>j \<in> set (a s i). e \<in> set (b s j))"
  by (auto simp: mSeq_def)

lemma in_mChar: "e \<in> set (mChar p s i) \<longleftrightarrow> (i < length s \<and> p (s ! i) \<and> e = Suc i)"
  by (auto simp: mChar_def)

lemma in_mEps: "e \<in> set (mEps s i) \<longleftrightarrow> e = i"
  by (auto simp: mEps_def)

lemma in_mWordB: "e \<in> set (mWordB s i) \<Longrightarrow> e = i"
  by (auto simp: mWordB_def split: if_splits)

lemma mSeqs_Nil: "mSeqs [] = mEps"
  by (simp add: mSeqs_def)

lemma mSeqs_Cons: "mSeqs (m # ms) = mSeq m (mSeqs ms)"
  by (simp add: mSeqs_def)

lemma mLit_Nil: "mLit [] = mEps"
  by (simp add: mLit_def mSeqs_Nil)

lemma mLit_Cons: "mLit (l # w) = mSeq (mChar (\<lambda>c. canonicalize c = canonicalize l)) (mLit w)"
  by (simp add: mLit_def mSeqs_Cons)

lemma in_mLit:
  "e \<in> set (mLit w s i) \<Longrightarrow> i \<le> length s \<Longrightarrow>
     e = i + length w \<and> e \<le> length s
   \<and> map canonicalize (take (length w) (drop i s)) = map canonicalize w"
proof (induction w arbitrary: i)
  case Nil
  then show ?case by (simp add: mLit_Nil in_mEps)
next
  case (Cons l w)
  from Cons.prems have i: "i < length s" "canonicalize (s ! i) = canonicalize l"
    and e: "e \<in> set (mLit w s (Suc i))"
    by (auto simp: mLit_Cons in_mSeq in_mChar)
  from i(1) have "Suc i \<le> length s" by simp
  from Cons.IH[OF e this] have ih: "e = Suc i + length w" "e \<le> length s"
    "map canonicalize (take (length w) (drop (Suc i) s)) = map canonicalize w"
    by simp_all
  have "take (length (l # w)) (drop i s) = s ! i # take (length w) (drop (Suc i) s)"
    using i(1) by (simp add: Cons_nth_drop_Suc[symmetric])
  with ih i(2) show ?case by simp
qed

lemma in_wordRegex: "e \<in> set (wordRegex w s i) \<Longrightarrow> e \<in> set (mLit w s i)"
  by (auto simp: wordRegex_def mSeqs_Cons mSeqs_Nil in_mSeq in_mEps dest!: in_mWordB)

lemma matchesFrom_sound:
  "(i, e) \<in> set (matchesFrom m s k) \<Longrightarrow> i \<le> length s \<and> e \<in> set (m s i)"
proof (induction m s k rule: matchesFrom.induct)
  case (1 m s k)
  show ?case
  proof (cases "length s < k")
    case True
    with "1.prems" show ?thesis by (subst (asm) matchesFrom.simps) simp
  next
    case False
    show ?thesis
    proof (cases "m s k")
      case Nil
      with False "1.prems" have "(i, e) \<in> set (matchesFrom m s (Suc k))"
        by (subst (asm) matchesFrom.simps) simp
      with "1.IH"(1)[OF False Nil] show ?thesis by simp
    next
      case (Cons e0 es)
      with False "1.prems" have
        "(i, e) = (k, e0) \<or> (i, e) \<in> set (matchesFrom m s (if k < e0 then e0 else Suc k))"
        by (subst (asm) matchesFrom.simps) simp
      then show ?thesis
      proof
        assume "(i, e) = (k, e0)"
        with False Cons show ?thesis by simp
      next
        assume "(i, e) \<in> set (matchesFrom m s (if k < e0 then e0 else Suc k))"
        with "1.IH"(2)[OF False Cons] show ?thesis by simp
      qed
    qed
  qed
qed

lemma jsSlice_span:
  "i \<le> e \<Longrightarrow> e \<le> length s \<Longrightarrow> jsSlice s (int i) (int e) = take (e - i) (drop i s)"
  by (simp add: jsSlice_def Let_def min_def nat_diff_distrib' of_nat_diff)

lemma weak_match_lower:
  assumes "(i, e) \<in> set (matchesFrom (wordRegex weak) s 0)" and "\<forall>l \<in> set weak. lowerOrSpace l"
  shows "toLowerCase (jsSlice s (int i) (int e)) = weak"
proof -
  from matchesFrom_sound[OF assms(1)] have "e \<in> set (mLit weak s i)" and "i \<le> length s"
    by (simp_all add: in_wordRegex)
  from in_mLit[OF this] have e: "e = i + length weak" "e \<le> length s"
    and c: "map canonicalize (take (length weak) (drop i s)) = map canonicalize weak"
    by simp_all
  from e have "i \<le> e" by simp
  from jsSlice_span[OF this e(2)] e(1)
  have "jsSlice s (int i) (int e) = take (length weak) (drop i s)"
    by simp
  with c assms(2) show ?thesis
    by (simp add: canonical_match_lower_list)
qed

lemma fold_enhanceCallback:
  "\<exists>added k'.
     fold (\<lambda>(i, e) st. snd (enhanceCallback rnd optText strong (jsSlice s (int i) (int e)) i st))
       spans (chs, k) = (chs @ added, k')
   \<and> (\<forall>c \<in> set added. \<exists>sp \<in> set spans. \<exists>k''. c = enhancedChange rnd optText strong s k'' sp)"
proof (induction spans arbitrary: chs k)
  case Nil
  then show ?case by simp
next
  case (Cons sp spans)
  obtain i e where sp: "sp = (i, e)" by (cases sp)
  let ?c = "enhancedChange rnd optText strong s k sp"
  have step: "snd (enhanceCallback rnd optText strong (jsSlice s (int i) (int e)) i (chs, k))
                = (chs @ [?c], Suc k)"
    by (simp add: enhanceCallback_def enhancedChange_def sp Let_def)
  from Cons.IH[of "chs @ [?c]" "Suc k"] obtain added k' where
    ih: "fold (\<lambda>(i, e) st. snd (enhanceCallback rnd optText strong (jsSlice s (int i) (int e)) i st))
           spans (chs @ [?c], Suc k) = ((chs @ [?c]) @ added, k')"
    "\<forall>c \<in> set added. \<exists>sp \<in> set spans. \<exists>k''. c = enhancedChange rnd optText strong s k'' sp"
    by blast
  have "fold (\<lambda>(i, e) st. snd (enhanceCallback rnd optText strong (jsSlice s (int i) (int e)) i st))
          (sp # spans) (chs, k) = (chs @ (?c # added), k')"
    using ih(1) step by (simp add: sp)
  moreover have "\<forall>c \<in> set (?c # added). \<exists>sp' \<in> set (sp # spans). \<exists>k''.
      c = enhancedChange rnd optText strong s k'' sp'"
    using ih(2) by auto
  ultimately show ?case by blast
qed

lemma randomIndex_less:
  assumes "0 \<le> r" and "r < 1" and "0 < n"
  shows "randomIndex r n < n"
proof -
  have "r * of_nat n < of_nat n"
    using assms by simp
  then have "\<lfloor>r * of_nat n\<rfloor> < int n"
    by (simp add: floor_less_iff)
  then show ?thesis
    unfolding randomIndex_def using assms(3) by linarith
qed

lemma elementAt_member:
  "0 \<le> r \<Longrightarrow> r < 1 \<Longrightarrow> strong \<noteq> [] \<Longrightarrow> elementAt strong (randomIndex r (length strong)) \<in> set strong"
  using randomIndex_less[of r "length strong"] by (simp add: elementAt_def)

lemma enhanceVerb_changes:
  assumes rnd: "\<forall>k. 0 \<le> rnd k \<and> rnd k < 1" and wf: "wellFormed (weak, strong)"
  shows "\<exists>enhanced' added k'.
           enhanceVerb rnd optText (weak, strong) (enhanced, chs, k) = (enhanced', chs @ added, k')
         \<and> (\<forall>c \<in> set added. change_type c = Enhancement \<and> fromMapping [(weak, strong)] c)"
proof -
  let ?spans = "matchesFrom (wordRegex weak) enhanced 0"
  from fold_enhanceCallback[of rnd optText strong enhanced ?spans chs k]
  obtain added k' where
    f: "fold (\<lambda>(i, e) st. snd (enhanceCallback rnd optText strong (jsSlice enhanced (int i) (int e)) i st))
          ?spans (chs, k) = (chs @ added, k')"
    and a: "\<forall>c \<in> set added. \<exists>sp \<in> set ?spans. \<exists>k''. c = enhancedChange rnd optText strong enhanced k'' sp"
    by blast
  have "snd (enhanceVerb rnd optText (weak, strong) (enhanced, chs, k)) = (chs @ added, k')"
    using f by (simp add: enhanceVerb_def replaceAll_def replaceLoop_state)
  then have res: "enhanceVerb rnd optText (weak, strong) (enhanced, chs, k)
      = (fst (enhanceVerb rnd optText (weak, strong) (enhanced, chs, k)), chs @ added, k')"
    by (metis prod.collapse)
  have "change_type c = Enhancement \<and> fromMapping [(weak, strong)] c" if "c \<in> set added" for c
  proof -
    from a that obtain sp k'' where sp: "sp \<in> set ?spans"
      and c: "c = enhancedChange rnd optText strong enhanced k'' sp" by blast
    obtain i e where ie: "sp = (i, e)" by (cases sp)
    from wf have strong: "strong \<noteq> []" and weak: "\<forall>l \<in> set weak. lowerOrSpace l"
      by (simp_all add: wellFormed_def list_all_iff)
    from sp ie weak have "toLowerCase (jsSlice enhanced (int i) (int e)) = weak"
      by (simp add: weak_match_lower)
    moreover have "elementAt strong (randomIndex (rnd k'') (length strong)) \<in> set strong"
      using rnd strong by (simp add: elementAt_member)
    ultimately show ?thesis
      by (simp add: c ie enhancedChange_def fromMapping_def)
  qed
  with res show ?thesis by blast
qed

lemma fromMapping_mono:
  "fromMapping es c \<Longrightarrow> set es \<subseteq> set es' \<Longrightarrow> fromMapping es' c"
  unfolding fromMapping_def by blast

lemma fold_enhanceVerb_changes:
  assumes rnd: "\<forall>k. 0 \<le> rnd k \<and> rnd k < 1" and wf: "list_all wellFormed entries"
  shows "\<exists>enhanced' added k'.
           fold (enhanceVerb rnd optText) entries (enhanced, chs, k) = (enhanced', chs @ added, k')
         \<and> (\<forall>c \<in> set added. change_type c = Enhancement \<and> fromMapping entries c)"
  using wf
proof (induction entries arbitrary: enhanced chs k)
  case Nil
  then show ?case by simp
next
  case (Cons entry entries)
  obtain weak strong where entry: "entry = (weak, strong)" by (cases entry)
  from Cons.prems have wf1: "wellFormed (weak, strong)" and wfs: "list_all wellFormed entries"
    by (simp_all add: entry)
  from enhanceVerb_changes[OF rnd wf1, of optText enhanced chs k]
  obtain e1 a1 k1 where
    s1: "enhanceVerb rnd optText (weak, strong) (enhanced, chs, k) = (e1, chs @ a1, k1)"
    and p1: "\<forall>c \<in> set a1. change_type c = Enhancement \<and> fromMapping [(weak, strong)] c"
    by blast
  from Cons.IH[OF wfs, of e1 "chs @ a1" k1]
  obtain e2 a2 k2 where
    s2: "fold (enhanceVerb rnd optText) entries (e1, chs @ a1, k1) = (e2, (chs @ a1) @ a2, k2)"
    and p2: "\<forall>c \<in> set a2. change_type c = Enhancement \<and> fromMapping entries c"
    by blast
  have "fold (enhanceVerb rnd optText) (entry # entries) (enhanced, chs, k)
          = (e2, chs @ (a1 @ a2), k2)"
    using s1 s2 by (simp add: entry)
  moreover have "\<forall>c \<in> set (a1 @ a2). change_type c = Enhancement \<and> fromMapping (entry # entries) c"
  proof
    fix c assume "c \<in> set (a1 @ a2)"
    then consider "c \<in> set a1" | "c \<in> set a2" by auto
    then show "change_type c = Enhancement \<and> fromMapping (entry # entries) c"
    proof cases
      case 1
      with p1 have "change_type c = Enhancement" "fromMapping [(weak, strong)] c" by simp_all
      then show ?thesis
        using fromMapping_mono[of "[(weak, strong)]" c "entry # entries"] by (simp add: entry)
    next
      case 2
      with p2 have "change_type c = Enhancement" "fromMapping entries c" by simp_all
      then show ?thesis
        using fromMapping_mono[of entries c "entry # entries"] by auto
    qed
  qed
  ultimately show ?case by blast
qed

lemma fold_metricCallback:
  "fold (\<lambda>(i, e) st. snd (metricCallback optText (jsSlice s (int i) (int e)) i st)) spans chs
     = chs @ map (metricChange optText s) spans"
  by (induction spans arbitrary: chs) (auto simp: metricCallback_def metricChange_def)

lemma metricChange_type: "change_type (metricChange optText s sp) = Metric"
  by (cases sp) (simp add: metricChange_def)

lemma replaceAll_metric:
  "snd (replaceAll metricRegex (metricCallback optText) s chs)
     = chs @ map (metricChange optText s) (matchesFrom metricRegex s 0)"
  by (simp add: replaceAll_def replaceLoop_state fold_metricCallback)

lemma wellFormed_actionVerbReplacements: "list_all wellFormed actionVerbReplacements"
  by code_simp

lemma handleEnhance_changes:
  assumes rnd: "\<forall>k. 0 \<le> rnd k \<and> rnd k < 1"
  shows "\<exists>enhanced verbs k.
           fold (enhanceVerb rnd (optimizedText st)) actionVerbReplacements
             (optimizedText st, changes st, 0) = (enhanced, changes st @ verbs, k)
         \<and> changes (handleEnhance sanitize rnd st)
             = changes st @ verbs
               @ map (metricChange (optimizedText st) enhanced) (matchesFrom metricRegex enhanced 0)
         \<and> (\<forall>c \<in> set verbs. change_type c = Enhancement \<and> fromMapping actionVerbReplacements c)"
proof -
  from fold_enhanceVerb_changes[OF rnd wellFormed_actionVerbReplacements,
      of "optimizedText st" "optimizedText st" "changes st" 0]
  obtain enhanced verbs k where
    f: "fold (enhanceVerb rnd (optimizedText st)) actionVerbReplacements
          (optimizedText st, changes st, 0) = (enhanced, changes st @ verbs, k)"
    and p: "\<forall>c \<in> set verbs. change_type c = Enhancement \<and> fromMapping actionVerbReplacements c"
    by blast
  have "changes (handleEnhance sanitize rnd st)
          = snd (replaceAll metricRegex (metricCallback (optimizedText st)) enhanced
                   (changes st @ verbs))"
    by (simp add: handleEnhance_def f split_beta Let_def)
  then have "changes (handleEnhance sanitize rnd st)
          = changes st @ verbs
            @ map (metricChange (optimizedText st) enhanced) (matchesFrom metricRegex enhanced 0)"
    by (simp add: replaceAll_metric)
  with f p show ?thesis by blast
qed

text \<open>
  Claim C10. Whatever the random source draws (each draw is a number from 0 up to, not
  including, 1), and for every state the pass starts from, each change of type
  enhancement that \<open>handleEnhance\<close> adds to the list of changes pairs an entry of
  \<open>actionVerbReplacements\<close>: its \<open>optimized\<close> is one of the candidates of the entry, and its
  \<open>original\<close>, put in lower case, is the weak phrase of the entry.
\<close>

theorem enhancement_from_mapping:
  assumes "\<forall>k. 0 \<le> rnd k \<and> rnd k < 1"
  shows "\<forall>c \<in> set (drop (length (changes st)) (changes (handleEnhance sanitize rnd st))).
           change_type c = Enhancement \<longrightarrow>
             (\<exists>(weak, strong) \<in> set actionVerbReplacements.
                optimized c \<in> set strong \<and> toLowerCase (original c) = weak)"
proof (intro ballI impI)
  fix c
  assume c: "c \<in> set (drop (length (changes st)) (changes (handleEnhance sanitize rnd st)))"
    and t: "change_type c = Enhancement"
  from handleEnhance_changes[OF assms, of st sanitize] obtain enhanced verbs where
    ch: "changes (handleEnhance sanitize rnd st)
           = changes st @ verbs
             @ map (metricChange (optimizedText st) enhanced) (matchesFrom metricRegex enhanced 0)"
    and p: "\<forall>c \<in> set verbs. change_type c = Enhancement \<and> fromMapping actionVerbReplacements c"
    by blast
  let ?metrics = "map (metricChange (optimizedText st) enhanced) (matchesFrom metricRegex enhanced 0)"
  have "drop (length (changes st)) (changes (handleEnhance sanitize rnd st)) = verbs @ ?metrics"
    by (simp add: ch)
  with c have "c \<in> set verbs \<or> c \<in> set ?metrics"
    by (simp only: set_append Un_iff)
  moreover have "c \<notin> set ?metrics"
  proof
    assume "c \<in> set ?metrics"
    then obtain sp where "c = metricChange (optimizedText st) enhanced sp"
      by (auto simp only: set_map image_iff)
    with t show False
      by (simp only: metricChange_type ChangeType.distinct)
  qed
  ultimately have "c \<in> set verbs"
    by blast
  with p have "fromMapping actionVerbReplacements c"
    by blast
  then show "\<exists>(weak, strong) \<in> set actionVerbReplacements.
                optimized c \<in> set strong \<and> toLowerCase (original c) = weak"
    unfolding fromMapping_def .
qed

subsection \<open>Running the patterns on a given text\<close>

text \<open>A pattern finds nothing from an index on when it matches at none of the indices
  left; a word cannot match where one of its letters is missing from the text, or where
  its first letter or the word boundary is missing; the metric pattern cannot match where
  the digit or the word boundary is missing.\<close>

lemma canonicalize_eq:
  "(canonicalize c = canonicalize d) = (canonCode (of_char c) = canonCode (of_char d))"
proof -
  have "code (canonicalize c) = canonCode (code c)" for c
    by (simp add: code_canonicalize canonCode_def isLower_def)
  then show ?thesis
    by (simp add: code_eq_iff code_def)
qed

lemma matchesFrom_Nil:
  "list_all (\<lambda>i. m s i = []) [k..<Suc (length s)] \<Longrightarrow> matchesFrom m s k = []"
proof (induction m s k rule: matchesFrom.induct)
  case (1 m s k)
  show ?case
  proof (cases "length s < k")
    case True
    then show ?thesis by (subst matchesFrom.simps) simp
  next
    case False
    then have "[k..<Suc (length s)] = k # [Suc k..<Suc (length s)]"
      by (simp add: upt_conv_Cons)
    with "1.prems" have here: "m s k = []"
      and rest: "list_all (\<lambda>i. m s i = []) [Suc k..<Suc (length s)]"
      by simp_all
    from "1.IH"(1)[OF False here rest] have "matchesFrom m s (Suc k) = []" .
    with False here show ?thesis
      by (subst matchesFrom.simps) simp
  qed
qed

lemma matchesFrom_hit:
  "k \<le> length s \<Longrightarrow> m s k = e # es \<Longrightarrow>
   matchesFrom m s k = (k, e) # matchesFrom m s (if k < e then e else Suc k)"
  by (subst matchesFrom.simps) simp

lemma mWordB_bound: "e \<in> set (mWordB s i) \<Longrightarrow> i \<le> length s"
  by (cases "i \<le> length s") (auto simp: mWordB_def wordAt_def split: if_splits)

lemma wordRegex_unfold: "wordRegex w = mSeq mWordB (mSeq (mLit w) (mSeq mWordB mEps))"
  by (simp add: wordRegex_def mSeqs_Cons mSeqs_Nil)

lemma wordRegex_absent_letter:
  assumes "l \<in> set w" and "list_all (\<lambda>c. canonicalize c \<noteq> canonicalize l) s"
  shows "wordRegex w s i = []"
proof -
  have False if "e \<in> set (wordRegex w s i)" for e
  proof -
    from that obtain j where j: "j \<in> set (mWordB s i)"
      unfolding wordRegex_unfold in_mSeq by blast
    then have i: "i \<le> length s"
      by (rule mWordB_bound)
    from that have "e \<in> set (mLit w s i)" by (rule in_wordRegex)
    from in_mLit[OF this i]
    have eq: "map canonicalize (take (length w) (drop i s)) = map canonicalize w" by simp
    have "canonicalize l \<in> canonicalize ` set w"
      using assms(1) by (rule imageI)
    then have "canonicalize l \<in> set (map canonicalize w)"
      by (simp only: set_map)
    then have "canonicalize l \<in> set (map canonicalize (take (length w) (drop i s)))"
      by (simp only: eq)
    then have "canonicalize l \<in> canonicalize ` set (take (length w) (drop i s))"
      by (simp only: set_map)
    then obtain c where c: "c \<in> set (take (length w) (drop i s))"
      "canonicalize l = canonicalize c"
      by (rule imageE)
    from c(1) have "c \<in> set (drop i s)"
      by (rule in_set_takeD)
    then have "c \<in> set s"
      by (rule in_set_dropD)
    with assms(2) have "canonicalize c \<noteq> canonicalize l"
      by (simp only: list_all_iff) blast
    with c(2) show False by simp
  qed
  then show ?thesis
    by (cases "wordRegex w s i") auto
qed

lemma wordRegex_never:
  assumes "l \<in> set w" and "list_all (\<lambda>c. canonicalize c \<noteq> canonicalize l) s"
  shows "matchesFrom (wordRegex w) s 0 = []"
  by (rule matchesFrom_Nil) (simp add: list_all_iff wordRegex_absent_letter[OF assms])

lemma metricRegex_head:
  "\<exists>rest. metricRegex = mSeq mWordB (mSeq (mNot datePattern) (mSeq (mSeq mDigit (mStar mDigit)) rest))"
  unfolding metricRegex_def mSeqs_Cons mPlus_def by blast

lemma metricRegex_needs_digit:
  "\<not> (i < length s \<and> isDigit (s ! i) \<and> mWordB s i \<noteq> []) \<Longrightarrow> metricRegex s i = []"
proof (rule ccontr)
  assume n: "\<not> (i < length s \<and> isDigit (s ! i) \<and> mWordB s i \<noteq> [])"
    and "metricRegex s i \<noteq> []"
  then obtain e where e: "e \<in> set (metricRegex s i)"
    by (cases "metricRegex s i") auto
  obtain rest where r: "metricRegex = mSeq mWordB (mSeq (mNot datePattern) (mSeq (mSeq mDigit (mStar mDigit)) rest))"
    using metricRegex_head by blast
  from e obtain j where j: "j \<in> set (mWordB s i)"
    and e1: "e \<in> set (mSeq (mNot datePattern) (mSeq (mSeq mDigit (mStar mDigit)) rest) s j)"
    unfolding r in_mSeq by blast
  from j have ji: "j = i" by (rule in_mWordB)
  from j have wb: "mWordB s i \<noteq> []" by auto
  from e1 obtain k where k: "k \<in> set (mNot datePattern s j)"
    and e2: "e \<in> set (mSeq (mSeq mDigit (mStar mDigit)) rest s k)"
    unfolding in_mSeq by blast
  from k have kj: "k = j"
    by (simp add: mNot_def split: if_splits)
  from e2 obtain d where "d \<in> set (mDigit s k)"
    by (auto simp: in_mSeq)
  then have "k < length s \<and> isDigit (s ! k)"
    by (simp add: mDigit_def in_mChar)
  with n wb ji kj show False by simp
qed

lemma enhanceVerb_no_match:
  "matchesFrom (wordRegex weak) s 0 = [] \<Longrightarrow> enhanceVerb rnd opt (weak, strong) (s, st) = (s, st)"
  by (simp add: enhanceVerb_def replaceAll_def)

lemmas charEval =
  isWordChar_def isAlpha_def isUpper_def isLower_def isDigit_def isSpace_def code_def
  canonicalize_eq canonCode_def

lemma starRounds_numeral:
  "starRounds (numeral n) a s i =
     concat (map (\<lambda>j. if i < j then starRounds (pred_numeral n) a s j else []) (a s i)) @ [i]"
  by (simp add: numeral_eq_Suc)

lemmas matcherEval =
  mSeqs_def mAlts_def mSeq_def mAlt_def mChar_def mEps_def mFail_def mOpt_def mStar_def
  mPlus_def mNot_def mWordB_def wordAt_def mLit_def mDigit_def starRounds_numeral

lemma verb0_absent: "matchesFrom (wordRegex ''worked'') datedText 0 = []"
  by (rule wordRegex_never[where l = "CHR ''o''"]) (simp_all add: datedText_def charEval)

lemma verb1_absent: "matchesFrom (wordRegex ''made'') datedText 0 = []"
  by (rule wordRegex_never[where l = "CHR ''m''"]) (simp_all add: datedText_def charEval)

lemma verb2_absent: "matchesFrom (wordRegex ''helped'') datedText 0 = []"
  by (rule wordRegex_never[where l = "CHR ''h''"]) (simp_all add: datedText_def charEval)

lemma verb3_absent: "matchesFrom (wordRegex ''responsible for'') datedText 0 = []"
  by (rule wordRegex_never[where l = "CHR ''o''"]) (simp_all add: datedText_def charEval)

lemma verb4_absent: "matchesFrom (wordRegex ''did'') datedText 0 = []"
  by (rule wordRegex_never[where l = "CHR ''d''"]) (simp_all add: datedText_def charEval)

lemma verb5_absent: "matchesFrom (wordRegex ''improved'') datedText 0 = []"
  by (rule wordRegex_never[where l = "CHR ''o''"]) (simp_all add: datedText_def charEval)

lemma metric_candidates:
  "metricRegex datedText 0 = []" "metricRegex datedText 2 = []"
  "metricRegex datedText 5 = []" "metricRegex datedText 16 = []"
  by (simp_all add: datedText_def metricRegex_def datePattern_def metricUnits_def matcherEval charEval)

lemma upt_29: "[0..<Suc 28] = [0, 1, 2, 3, 4, 5, 6, 7, 8, 9, 10, 11, 12, 13, 14, 15, 16, 17, 18, 19, 20, 21, 22, 23, 24, 25, 26, 27, 28]"
  by code_simp

lemma metric_absent: "matchesFrom metricRegex datedText 0 = []"
proof (rule matchesFrom_Nil)
  have len: "length datedText = 28"
    by (simp add: datedText_def)
  show "list_all (\<lambda>i. metricRegex datedText i = []) [0..<Suc (length datedText)]"
    unfolding len upt_29
    by (simp add: metric_candidates)
       (simp add: datedText_def metricRegex_needs_digit mWordB_def wordAt_def charEval)
qed

lemma fold_enhanceVerb_no_match:
  "list_all (\<lambda>entry. matchesFrom (wordRegex (fst entry)) s 0 = []) entries \<Longrightarrow>
   fold (enhanceVerb rnd opt) entries (s, st) = (s, st)"
proof (induction entries)
  case Nil
  then show ?case by simp
next
  case (Cons entry entries)
  obtain weak strong where entry: "entry = (weak, strong)" by (cases entry)
  from Cons.prems have "matchesFrom (wordRegex weak) s 0 = []"
    by (simp add: entry)
  then have "enhanceVerb rnd opt entry (s, st) = (s, st)"
    unfolding entry by (rule enhanceVerb_no_match)
  with Cons show ?case by simp
qed

text \<open>
  Claim C1, at its own example. For the text \<^verbatim>\<open>3/15/2024 saw a 20% increase\<close>, whatever
  the random source and the sanitizer, \<open>handleEnhance\<close> records no change at all: no weak
  verb occurs, and the metric pattern finds nothing. At \<^verbatim>\<open>20%\<close> the pattern ends with
  \<^verbatim>\<open>\b\<close> after the percent sign, which asks for a word character right after it, and the
  text has a space there; the other branch asks for white space between the number and
  the unit, and the text has the percent sign there. So neither \<^verbatim>\<open>20%\<close> nor
  \<^verbatim>\<open>20% increase\<close> is flagged, where the claim says one of them is. (The date is not
  flagged either.)
\<close>

theorem metric_pass_misses_percent:
  "changes (handleEnhance sanitize rnd
      \<lparr>resumeText = r, optimizedText = ''3/15/2024 saw a 20% increase'', changes = []\<rparr>) = []"
proof -
  let ?st = "\<lparr>resumeText = r, optimizedText = datedText, changes = []\<rparr>"
  have "fold (enhanceVerb rnd datedText) actionVerbReplacements (datedText, [], 0)
          = (datedText, [], 0)"
    by (rule fold_enhanceVerb_no_match)
       (simp add: actionVerbReplacements_def verb0_absent verb1_absent
        verb2_absent verb3_absent verb4_absent verb5_absent)
  then have "changes (handleEnhance sanitize rnd ?st) = []"
    by (simp add: handleEnhance_def replaceAll_def metric_absent)
  then show ?thesis
    by (simp add: datedText_def)
qed

lemma wordRegex_needs_letter:
  "\<not> (i < length s \<and> canonicalize (s ! i) = canonicalize l \<and> mWordB s i \<noteq> []) \<Longrightarrow>
   wordRegex (l # w) s i = []"
proof (rule ccontr)
  assume n: "\<not> (i < length s \<and> canonicalize (s ! i) = canonicalize l \<and> mWordB s i \<noteq> [])"
    and "wordRegex (l # w) s i \<noteq> []"
  then obtain e where e: "e \<in> set (wordRegex (l # w) s i)"
    by (cases "wordRegex (l # w) s i") auto
  then obtain j where j: "j \<in> set (mWordB s i)"
    and e1: "e \<in> set (mSeq (mLit (l # w)) (mSeq mWordB mEps) s j)"
    unfolding wordRegex_unfold in_mSeq by blast
  from j have ji: "j = i" by (rule in_mWordB)
  from j have wb: "mWordB s i \<noteq> []" by auto
  from e1 obtain d where "d \<in> set (mChar (\<lambda>c. canonicalize c = canonicalize l) s j)"
    by (auto simp: mLit_Cons in_mSeq)
  then have "j < length s \<and> canonicalize (s ! j) = canonicalize l"
    by (simp add: in_mChar)
  with n wb ji show False by simp
qed


end
